theory Spec2Isabelle
  imports Complex_Main "HOL-Library.Word" "HOL-Library.Multiset" "HOL-Library.AList"
begin

section \<open>Constants (constants.ts)\<close>

text \<open>
  JavaScript numbers are IEEE doubles. Every quantity below that the program keeps as a
  count or as a latency in whole microseconds is modelled by \<open>nat\<close> or \<open>int\<close>, which is
  exact for doubles below \<open>2 ^ 53\<close>. The target rank of \<open>getPercentile\<close> and the
  conversions of percentiles.ts are computed as the program computes them, with every
  operation rounded to the nearest double (section "Doubles"). The other quantities
  that the program divides (means, standard deviations, rates, error rates, clock
  readings) are modelled by exact reals, without the rounding.
\<close>

definition HISTOGRAM_BUCKETS :: nat where
  "HISTOGRAM_BUCKETS = 10000"

definition MAX_LATENCY_US :: int where
  "MAX_LATENCY_US = 10000000"

definition BUCKET_WIDTH_US :: int where
  "BUCKET_WIDTH_US = MAX_LATENCY_US div int HISTOGRAM_BUCKETS"

definition MAX_SAFE_INTEGER :: int where
  "MAX_SAFE_INTEGER = 9007199254740991"

definition SUCCESS_STATUS_CODES :: "int set" where
  "SUCCESS_STATUS_CODES = {200, 201, 202, 204, 301, 302, 304}"

definition EXIT_SUCCESS :: nat where
  "EXIT_SUCCESS = 0"

definition EXIT_THRESHOLD_EXCEEDED :: nat where
  "EXIT_THRESHOLD_EXCEEDED = 1"

definition EXIT_ERROR :: nat where
  "EXIT_ERROR = 2"

section \<open>Doubles\<close>

text \<open>
  A finite double is a real number. An arithmetic operation of JavaScript gives the
  double nearest to the exact result, a tie going to the double whose significand is
  even: \<open>nearestDouble\<close>. With \<open>e\<close> the exponent of the last place of \<open>\<bar>x\<bar>\<close> (52 binary
  places below its leading bit, and never below \<open>-1074\<close>, where the subnormal doubles
  lie), \<open>\<bar>x\<bar> / 2 ^ e\<close> is rounded to an integer. Results of magnitude \<open>2 ^ 1024\<close> and
  more are \<open>Infinity\<close> in JavaScript; no operation below reaches them on a percentile
  between 0 and 100 or on a latency, and they are outside the model.
\<close>

fun bitLength :: "nat \<Rightarrow> nat" where
  "bitLength n = (if n = 0 then 0 else Suc (bitLength (n div 2)))"

declare bitLength.simps [simp del]

definition pow2 :: "int \<Rightarrow> real" where
  "pow2 e = (if 0 \<le> e then 2 ^ nat e else 1 / 2 ^ nat (- e))"

text \<open>\<open>ilog2 x\<close> is \<open>\<lfloor>log\<^sub>2 x\<rfloor>\<close> for \<open>x > 0\<close>.\<close>

definition ilog2 :: "real \<Rightarrow> int" where
  "ilog2 x =
     (if 1 \<le> x then int (bitLength (nat \<lfloor>x\<rfloor>)) - 1
      else if x * pow2 (int (bitLength (nat \<lfloor>1 / x\<rfloor>)) - 1) = 1
           then 1 - int (bitLength (nat \<lfloor>1 / x\<rfloor>))
           else - int (bitLength (nat \<lfloor>1 / x\<rfloor>)))"

definition roundHalfEven :: "real \<Rightarrow> int" where
  "roundHalfEven m =
     (if m - real_of_int \<lfloor>m\<rfloor> < 1 / 2 then \<lfloor>m\<rfloor>
      else if m - real_of_int \<lfloor>m\<rfloor> > 1 / 2 then \<lfloor>m\<rfloor> + 1
      else if even \<lfloor>m\<rfloor> then \<lfloor>m\<rfloor> else \<lfloor>m\<rfloor> + 1)"

definition ulpExponent :: "real \<Rightarrow> int" where
  "ulpExponent a = max (ilog2 a - 52) (- 1074)"

definition nearestDouble :: "real \<Rightarrow> real" where
  "nearestDouble x =
     (if x = 0 then 0
      else sgn x * (real_of_int (roundHalfEven (\<bar>x\<bar> / pow2 (ulpExponent \<bar>x\<bar>)))
                     * pow2 (ulpExponent \<bar>x\<bar>)))"

section \<open>Histogram (core/metrics/histogram.ts)\<close>

text \<open>
  The class keeps a \<open>Uint32Array\<close> of \<open>HISTOGRAM_BUCKETS\<close> counters, so a bucket is a
  32-bit word whose addition wraps, and four numbers. A read of a typed array outside
  its range gives \<open>undefined\<close>; the source guards every such read, and the model writes
  the guard as a test against the length of the list.
\<close>

record Histogram =
  buckets :: "32 word list"
  count_h :: nat
  min_h :: int
  max_h :: int
  sum_h :: int

definition createHistogram :: Histogram where
  "createHistogram =
     \<lparr>buckets = replicate HISTOGRAM_BUCKETS 0, count_h = 0,
      min_h = MAX_SAFE_INTEGER, max_h = 0, sum_h = 0\<rparr>"

definition record_us :: "int \<Rightarrow> Histogram \<Rightarrow> Histogram" where
  "record_us valueUs h =
     (let clampedValue = min valueUs (MAX_LATENCY_US - 1);
          bucketIndex = clampedValue div BUCKET_WIDTH_US;
          safeIndex = min bucketIndex (int HISTOGRAM_BUCKETS - 1);
          bs = (if 0 \<le> safeIndex \<and> nat safeIndex < length (buckets h)
                then (buckets h)[nat safeIndex := buckets h ! nat safeIndex + 1]
                else buckets h)
      in \<lparr>buckets = bs,
          count_h = count_h h + 1,
          min_h = (if valueUs < min_h h then valueUs else min_h h),
          max_h = (if valueUs > max_h h then valueUs else max_h h),
          sum_h = sum_h h + valueUs\<rparr>)"

definition getCount :: "Histogram \<Rightarrow> nat" where
  "getCount h = count_h h"

definition getMin :: "Histogram \<Rightarrow> int" where
  "getMin h = (if count_h h > 0 then min_h h else 0)"

definition getMax :: "Histogram \<Rightarrow> int" where
  "getMax h = max_h h"

definition getMean :: "Histogram \<Rightarrow> real" where
  "getMean h = (if count_h h > 0 then real_of_int (sum_h h) / real (count_h h) else 0)"

definition bucketMidpoint :: "nat \<Rightarrow> real" where
  "bucketMidpoint i = (real i + 1 / 2) * real_of_int BUCKET_WIDTH_US"

text \<open>
  The scan of \<open>getPercentile\<close>: \<open>cumulative\<close> is a JavaScript number, so it adds the
  buckets' values without wrapping. The target is
  \<open>Math.ceil((percentile / 100) * this.count)\<close>: the quotient and the product are each
  rounded to a double, and \<open>Math.ceil\<close> of a double is exact.
\<close>

function getPercentile_scan :: "Histogram \<Rightarrow> int \<Rightarrow> nat \<Rightarrow> nat \<Rightarrow> real" where
  "getPercentile_scan h targetCount cumulative i =
     (if i < HISTOGRAM_BUCKETS then
        (let cumulative' = (if i < length (buckets h)
                            then cumulative + unat (buckets h ! i) else cumulative)
         in if int cumulative' \<ge> targetCount then bucketMidpoint i
            else getPercentile_scan h targetCount cumulative' (i + 1))
      else real_of_int MAX_LATENCY_US)"
  by pat_completeness auto
termination
  by (relation "measure (\<lambda>(h, t, c, i). HISTOGRAM_BUCKETS - i)") auto

declare getPercentile_scan.simps [simp del]

definition percentileTarget :: "real \<Rightarrow> nat \<Rightarrow> int" where
  "percentileTarget percentile n =
     \<lceil>nearestDouble (nearestDouble (percentile / 100) * real n)\<rceil>"

definition getPercentile :: "real \<Rightarrow> Histogram \<Rightarrow> real" where
  "getPercentile percentile h =
     (if count_h h = 0 then 0
      else getPercentile_scan h (percentileTarget percentile (count_h h)) 0 0)"

text \<open>
  The loop of \<open>getStdDev\<close> returns the pair \<open>(sumSquaredDiff, counted)\<close>. The final
  quotient is \<open>NaN\<close> in JavaScript when \<open>counted\<close> is 0; the model returns \<open>None\<close> there.
\<close>

function getStdDev_scan :: "Histogram \<Rightarrow> real \<Rightarrow> real \<Rightarrow> nat \<Rightarrow> nat \<Rightarrow> real \<times> nat" where
  "getStdDev_scan h mean sumSquaredDiff counted i =
     (if i < HISTOGRAM_BUCKETS then
        (if i < length (buckets h) \<and> unat (buckets h ! i) > 0 then
           (let bucketCount = unat (buckets h ! i);
                diff = bucketMidpoint i - mean
            in getStdDev_scan h mean (sumSquaredDiff + diff * diff * real bucketCount)
                 (counted + bucketCount) (i + 1))
         else getStdDev_scan h mean sumSquaredDiff counted (i + 1))
      else (sumSquaredDiff, counted))"
  by pat_completeness auto
termination
  by (relation "measure (\<lambda>(h, m, s, c, i). HISTOGRAM_BUCKETS - i)") auto

declare getStdDev_scan.simps [simp del]

definition getStdDev :: "Histogram \<Rightarrow> real option" where
  "getStdDev h =
     (if count_h h < 2 then Some 0
      else (case getStdDev_scan h (getMean h) 0 0 0 of
              (sumSquaredDiff, counted) \<Rightarrow>
                if counted = 0 then None else Some (sqrt (sumSquaredDiff / real counted))))"

text \<open>
  \<open>export\<close> copies the state; \<open>import\<close> adds it into the receiver. In \<open>import\<close> a missing
  incoming bucket counts as 0 (\<open>incoming ?? 0\<close>).
\<close>

definition export_data :: "Histogram \<Rightarrow> Histogram" where
  "export_data h =
     \<lparr>buckets = buckets h, count_h = count_h h, min_h = min_h h, max_h = max_h h,
      sum_h = sum_h h\<rparr>"

definition import_bucket :: "32 word list \<Rightarrow> 32 word list \<Rightarrow> nat \<Rightarrow> 32 word" where
  "import_bucket cur inc i =
     (if i < HISTOGRAM_BUCKETS then cur ! i + (if i < length inc then inc ! i else 0)
      else cur ! i)"

definition import_data :: "Histogram \<Rightarrow> Histogram \<Rightarrow> Histogram" where
  "import_data d h =
     \<lparr>buckets = map (import_bucket (buckets h) (buckets d)) [0..<length (buckets h)],
      count_h = count_h h + count_h d,
      min_h = (if count_h d > 0 \<and> min_h d < min_h h then min_h d else min_h h),
      max_h = (if count_h d > 0 \<and> max_h d > max_h h then max_h d else max_h h),
      sum_h = sum_h h + sum_h d\<rparr>"

definition merge_h :: "Histogram \<Rightarrow> Histogram \<Rightarrow> Histogram" where
  "merge_h this other = import_data (export_data other) this"

definition reset_h :: "Histogram \<Rightarrow> Histogram" where
  "reset_h h =
     \<lparr>buckets = replicate (length (buckets h)) 0, count_h = 0,
      min_h = MAX_SAFE_INTEGER, max_h = 0, sum_h = 0\<rparr>"

section \<open>Percentile statistics (core/metrics/percentiles.ts)\<close>

text \<open>
  All fields are milliseconds. \<open>stddev\<close> is \<open>None\<close> where JavaScript has \<open>NaN\<close>. The literal
  \<open>99.9\<close> of the source is the double nearest to it.
\<close>

record LatencyStats =
  min_ms :: real
  max_ms :: real
  mean_ms :: real
  stddev_ms :: "real option"
  p50 :: real
  p75 :: real
  p90 :: real
  p95 :: real
  p99 :: real
  p999 :: real

definition toMs :: "real \<Rightarrow> real" where
  "toMs us = nearestDouble (us / 1000)"

definition calculatePercentiles :: "Histogram \<Rightarrow> LatencyStats" where
  "calculatePercentiles h =
     \<lparr>min_ms = toMs (real_of_int (getMin h)),
      max_ms = toMs (real_of_int (getMax h)),
      mean_ms = toMs (getMean h),
      stddev_ms = map_option toMs (getStdDev h),
      p50 = toMs (getPercentile 50 h),
      p75 = toMs (getPercentile 75 h),
      p90 = toMs (getPercentile 90 h),
      p95 = toMs (getPercentile 95 h),
      p99 = toMs (getPercentile 99 h),
      p999 = toMs (getPercentile (nearestDouble (999 / 10)) h)\<rparr>"

text \<open>
  \<open>Math.round\<close> rounds half up, and exactly: \<open>Math.round x = \<lfloor>x + 1/2\<rfloor>\<close>. The product and the
  quotient of \<open>roundTo\<close> are rounded to doubles; \<open>Math.pow(10, decimals)\<close> is exact for the
  two decimals that the program asks for.
\<close>

definition roundTo :: "real \<Rightarrow> nat \<Rightarrow> real" where
  "roundTo v decimals =
     (let factor = (10::real) ^ decimals
      in nearestDouble (real_of_int \<lfloor>nearestDouble (v * factor) + 1 / 2\<rfloor> / factor))"

definition formatLatencyStats :: "LatencyStats \<Rightarrow> LatencyStats" where
  "formatLatencyStats stats =
     \<lparr>min_ms = roundTo (min_ms stats) 2,
      max_ms = roundTo (max_ms stats) 2,
      mean_ms = roundTo (mean_ms stats) 2,
      stddev_ms = map_option (\<lambda>v. roundTo v 2) (stddev_ms stats),
      p50 = roundTo (p50 stats) 2,
      p75 = roundTo (p75 stats) 2,
      p90 = roundTo (p90 stats) 2,
      p95 = roundTo (p95 stats) 2,
      p99 = roundTo (p99 stats) 2,
      p999 = roundTo (p999 stats) 2\<rparr>"

section \<open>Metrics snapshots and the request loop (types.ts, core/worker/loop.ts)\<close>

text \<open>
  \<open>byStatusCode\<close> is a JavaScript object keyed by status codes. Such an object
  enumerates integer keys in ascending order, so it is modelled by an association list
  kept sorted by key: \<open>record_put\<close> is the assignment \<open>obj[k] = v\<close> and \<open>map_of\<close> the
  read \<open>obj[k]\<close>. Where two such objects are compared as values, the model compares the
  finite maps \<open>int \<rightharpoonup> nat\<close> they denote.
\<close>

record 'r ErrorBreakdown =
  timeouts :: nat
  connectionErrors :: nat
  byStatusCode :: 'r

type_synonym status_record = "(int \<times> nat) list"

fun record_put :: "int \<Rightarrow> nat \<Rightarrow> status_record \<Rightarrow> status_record" where
  "record_put k v [] = [(k, v)]"
| "record_put k v ((k', v') # r) =
     (if k = k' then (k, v) # r
      else if k < k' then (k, v) # (k', v') # r
      else (k', v') # record_put k v r)"

record Metrics =
  requests :: nat
  successful :: nat
  failed :: nat
  bytes :: nat
  latencies :: "int list"
  errors :: "status_record ErrorBreakdown"

record LoopState = Metrics +
  running :: bool

record MetricsSnapshot = Metrics +
  workerId :: nat

definition createInitialState :: LoopState where
  "createInitialState =
     \<lparr>requests = 0, successful = 0, failed = 0, bytes = 0, latencies = [],
      errors = \<lparr>timeouts = 0, connectionErrors = 0, byStatusCode = []\<rparr>,
      running = True\<rparr>"

text \<open>
  What \<open>HttpClient.execute\<close> gives back to the loop: a response, or a thrown value, which
  is an \<open>Error\<close> object with its \<open>message\<close> and \<open>name\<close>, or something else.
\<close>

datatype thrown = ErrorObject string string | NonError

datatype outcome = Response int nat int | Thrown thrown

fun includes_str :: "string \<Rightarrow> string \<Rightarrow> bool" where
  "includes_str [] needle = (needle = [])"
| "includes_str (c # cs) needle =
     (take (length needle) (c # cs) = needle \<or> includes_str cs needle)"

definition executeRequest :: "outcome \<Rightarrow> LoopState \<Rightarrow> LoopState" where
  "executeRequest out st0 =
     (let st = st0\<lparr>requests := requests st0 + 1\<rparr> in
      case out of
        Response statusCode nbytes latencyUs \<Rightarrow>
          (let st1 = st\<lparr>latencies := latencies st @ [latencyUs], bytes := bytes st + nbytes\<rparr>
           in if statusCode \<in> SUCCESS_STATUS_CODES
              then st1\<lparr>successful := successful st1 + 1\<rparr>
              else (let cnt = (case map_of (byStatusCode (errors st1)) statusCode of
                                 None \<Rightarrow> 0 | Some c \<Rightarrow> c)
                    in st1\<lparr>failed := failed st1 + 1,
                           errors := (errors st1)\<lparr>byStatusCode :=
                             record_put statusCode (cnt + 1) (byStatusCode (errors st1))\<rparr>\<rparr>))
      | Thrown err \<Rightarrow>
          (let st1 = st\<lparr>failed := failed st + 1\<rparr>
           in case err of
                ErrorObject message name \<Rightarrow>
                  if includes_str message ''timeout'' \<or> name = ''TimeoutError''
                  then st1\<lparr>errors := (errors st1)\<lparr>timeouts := timeouts (errors st1) + 1\<rparr>\<rparr>
                  else st1\<lparr>errors := (errors st1)\<lparr>connectionErrors :=
                                          connectionErrors (errors st1) + 1\<rparr>\<rparr>
              | NonError \<Rightarrow>
                  st1\<lparr>errors := (errors st1)\<lparr>connectionErrors :=
                                     connectionErrors (errors st1) + 1\<rparr>\<rparr>))"

definition getSnapshot :: "nat \<Rightarrow> LoopState \<Rightarrow> MetricsSnapshot" where
  "getSnapshot wid st =
     \<lparr>requests = requests st, successful = successful st, failed = failed st,
      bytes = bytes st, latencies = latencies st, errors = errors st, workerId = wid\<rparr>"

text \<open>
  The messages of a worker (core/worker/messages.ts), and a run of the loop
  (\<open>RequestLoop.run\<close> under \<open>handleStart\<close> of core/worker/worker.ts) driven by what
  happens to it. \<open>RequestCycle\<close> is a request cycle with its outcome; \<open>MetricsTick\<close> is the
  firing of the metrics timer between two cycles (while the rate limiter sleeps), which
  posts \<open>getSnapshot()\<close>; \<open>RequestCycleTicked n\<close> is a request cycle during which the timer
  fires \<open>n\<close> times while the request is in flight, after \<open>requests++\<close> and before the
  outcome is counted. When the loop ends, the final \<open>getSnapshot()\<close> is posted as \<open>done\<close>.
\<close>

datatype WorkerResponse =
  Ready nat | MetricsMsg MetricsSnapshot | DoneMsg MetricsSnapshot | ErrorMsg nat string

datatype loop_event = RequestCycle outcome | MetricsTick | RequestCycleTicked nat outcome

fun run_loop :: "nat \<Rightarrow> loop_event list \<Rightarrow> LoopState \<Rightarrow> WorkerResponse list" where
  "run_loop wid [] st = [DoneMsg (getSnapshot wid st)]"
| "run_loop wid (RequestCycle out # evs) st = run_loop wid evs (executeRequest out st)"
| "run_loop wid (MetricsTick # evs) st = MetricsMsg (getSnapshot wid st) # run_loop wid evs st"
| "run_loop wid (RequestCycleTicked n out # evs) st =
     replicate n (MetricsMsg (getSnapshot wid (st\<lparr>requests := requests st + 1\<rparr>)))
     @ run_loop wid evs (executeRequest out st)"

definition executed_requests :: "loop_event list \<Rightarrow> nat" where
  "executed_requests evs = length (filter (\<lambda>e. e \<noteq> MetricsTick) evs)"

section \<open>Aggregator (core/metrics/aggregator.ts)\<close>

text \<open>
  \<open>statusCodes\<close> is a JavaScript \<open>Map\<close>, which keeps insertion order: an association list
  with \<open>AList.update\<close> as \<open>set\<close> and \<open>map_of\<close> as \<open>get\<close>. \<open>getMetrics\<close> copies it into a plain
  object, modelled by the finite map it denotes. \<open>parseInt(code, 10)\<close> on a key of
  \<open>Object.entries\<close> gives back the status code.
\<close>

record Totals =
  totalRequests :: nat
  successfulRequests :: nat
  failedRequests :: nat
  totalBytes :: nat

record MetricsAggregator = Totals +
  histogram :: Histogram
  timeouts_a :: nat
  connectionErrors_a :: nat
  statusCodes :: "(int \<times> nat) list"

record AggregatedMetrics = Totals +
  latency :: LatencyStats
  errors_m :: "(int \<rightharpoonup> nat) ErrorBreakdown"

definition createAggregator :: MetricsAggregator where
  "createAggregator =
     \<lparr>totalRequests = 0, successfulRequests = 0, failedRequests = 0, totalBytes = 0,
      histogram = createHistogram, timeouts_a = 0, connectionErrors_a = 0,
      statusCodes = []\<rparr>"

definition addStatusCode :: "int \<times> nat \<Rightarrow> (int \<times> nat) list \<Rightarrow> (int \<times> nat) list" where
  "addStatusCode entry codes =
     (case entry of (statusCode, cnt) \<Rightarrow>
        (let existing = (case map_of codes statusCode of None \<Rightarrow> 0 | Some e \<Rightarrow> e)
         in AList.update statusCode (existing + cnt) codes))"

definition addSnapshot :: "MetricsSnapshot \<Rightarrow> MetricsAggregator \<Rightarrow> MetricsAggregator" where
  "addSnapshot snapshot a =
     \<lparr>totalRequests = totalRequests a + requests snapshot,
      successfulRequests = successfulRequests a + successful snapshot,
      failedRequests = failedRequests a + failed snapshot,
      totalBytes = totalBytes a + bytes snapshot,
      histogram = fold record_us (latencies snapshot) (histogram a),
      timeouts_a = timeouts_a a + timeouts (errors snapshot),
      connectionErrors_a = connectionErrors_a a + connectionErrors (errors snapshot),
      statusCodes = fold addStatusCode (byStatusCode (errors snapshot)) (statusCodes a)\<rparr>"

definition getMetrics :: "MetricsAggregator \<Rightarrow> AggregatedMetrics" where
  "getMetrics a =
     \<lparr>totalRequests = totalRequests a,
      successfulRequests = successfulRequests a,
      failedRequests = failedRequests a,
      totalBytes = totalBytes a,
      latency = formatLatencyStats (calculatePercentiles (histogram a)),
      errors_m = \<lparr>timeouts = timeouts_a a, connectionErrors = connectionErrors_a a,
                  byStatusCode = map_of (statusCodes a)\<rparr>\<rparr>"

section \<open>Orchestrator (core/orchestrator/orchestrator.ts)\<close>

text \<open>
  Of the result record the model keeps the fields computed from the aggregator; the
  echoed configuration, the timestamp and the metadata are left out. \<open>durationSec\<close> is
  the clock difference read by \<open>finalize\<close>, a positive number. The promise of \<open>run\<close> is
  \<open>settled\<close>: \<open>None\<close> while pending, then a rejection message or the result; a settled
  promise ignores later calls.
\<close>

record BenchResult =
  requests_total :: nat
  requests_successful :: nat
  requests_failed :: nat
  throughput_rps :: real
  throughput_bytesPerSecond :: real
  throughput_totalBytes :: nat
  latency_r :: LatencyStats
  errors_r :: "(int \<rightharpoonup> nat) ErrorBreakdown"

record Orchestrator =
  aggregator :: MetricsAggregator
  workerCount :: nat
  completedWorkers :: nat
  settled :: "(string + BenchResult) option"

definition createOrchestrator :: "nat \<Rightarrow> Orchestrator" where
  "createOrchestrator n =
     \<lparr>aggregator = createAggregator, workerCount = n, completedWorkers = 0,
      settled = None\<rparr>"

definition settle :: "string + BenchResult \<Rightarrow> Orchestrator \<Rightarrow> Orchestrator" where
  "settle v orch = (if settled orch = None then orch\<lparr>settled := Some v\<rparr> else orch)"

definition finalize :: "real \<Rightarrow> Orchestrator \<Rightarrow> Orchestrator" where
  "finalize durationSec orch =
     (let metrics = getMetrics (aggregator orch);
          result =
            \<lparr>requests_total = totalRequests metrics,
             requests_successful = successfulRequests metrics,
             requests_failed = failedRequests metrics,
             throughput_rps = roundTo (real (totalRequests metrics) / durationSec) 2,
             throughput_bytesPerSecond = roundTo (real (totalBytes metrics) / durationSec) 0,
             throughput_totalBytes = totalBytes metrics,
             latency_r = latency metrics,
             errors_r = errors_m metrics\<rparr>
      in settle (Inr result) orch)"

definition handleWorkerComplete :: "real \<Rightarrow> Orchestrator \<Rightarrow> Orchestrator" where
  "handleWorkerComplete durationSec orch =
     (let orch' = orch\<lparr>completedWorkers := completedWorkers orch + 1\<rparr>
      in if completedWorkers orch' \<ge> workerCount orch' then finalize durationSec orch'
         else orch')"

definition handleWorkerError :: "string \<Rightarrow> Orchestrator \<Rightarrow> Orchestrator" where
  "handleWorkerError message orch = settle (Inl message) orch"

definition handleWorkerMessage :: "real \<Rightarrow> WorkerResponse \<Rightarrow> Orchestrator \<Rightarrow> Orchestrator" where
  "handleWorkerMessage durationSec message orch =
     (case message of
        Ready wid \<Rightarrow> orch
      | MetricsMsg payload \<Rightarrow> orch\<lparr>aggregator := addSnapshot payload (aggregator orch)\<rparr>
      | DoneMsg payload \<Rightarrow>
          handleWorkerComplete durationSec
            (orch\<lparr>aggregator := addSnapshot payload (aggregator orch)\<rparr>)
      | ErrorMsg wid msg \<Rightarrow> handleWorkerError msg orch)"

text \<open>The snapshots among a sequence of worker messages, in the order received.\<close>

fun snapshots_of :: "WorkerResponse list \<Rightarrow> MetricsSnapshot list" where
  "snapshots_of [] = []"
| "snapshots_of (MetricsMsg p # ms) = p # snapshots_of ms"
| "snapshots_of (DoneMsg p # ms) = p # snapshots_of ms"
| "snapshots_of (m # ms) = snapshots_of ms"

section \<open>Rate limiter (core/scheduler/rate-limiter.ts)\<close>

text \<open>
  Times are readings of \<open>performance.now()\<close> in milliseconds, given to each operation as
  arguments: \<open>acquire\<close> reads the clock in its first \<open>refill\<close>, when it computes the wait,
  and in the \<open>refill\<close> after the sleep. The operator \<open>%\<close> of JavaScript truncates the
  quotient towards zero.
\<close>

record RateLimiter =
  ratePerSecond :: real
  intervalMs :: real
  tokens :: real
  lastRefill :: real

definition newRateLimiter :: "real \<Rightarrow> real \<Rightarrow> RateLimiter" where
  "newRateLimiter rate now =
     \<lparr>ratePerSecond = rate, intervalMs = 1000 / rate, tokens = rate, lastRefill = now\<rparr>"


definition refill :: "real \<Rightarrow> RateLimiter \<Rightarrow> RateLimiter" where
  "refill now rl =
     (let elapsed = now - lastRefill rl;
          tokensToAdd = (elapsed / 1000) * ratePerSecond rl
      in if tokensToAdd \<ge> 1
         then rl\<lparr>tokens := min (ratePerSecond rl) (tokens rl + tokensToAdd),
                 lastRefill := now\<rparr>
         else rl)"




definition getTokens :: "real \<Rightarrow> RateLimiter \<Rightarrow> RateLimiter \<times> real" where
  "getTokens now rl = (let rl1 = refill now rl in (rl1, tokens rl1))"

definition createRateLimiter :: "real option \<Rightarrow> real \<Rightarrow> RateLimiter option" where
  "createRateLimiter rate now =
     (case rate of None \<Rightarrow> None
      | Some r \<Rightarrow> if r \<le> 0 then None else Some (newRateLimiter r now))"

section \<open>Command line flags (cli/flags.ts)\<close>

text \<open>
  A number read from the command line may be \<open>NaN\<close>: it is a \<open>real option\<close>, with \<open>None\<close> for
  \<open>NaN\<close>. \<open>parseInt\<close> and \<open>parseFloat\<close> are built into JavaScript, and \<open>parseFlags\<close> takes
  them as the parameters \<open>pInt\<close> and \<open>pFloat\<close>. The index loop over \<open>args\<close> is a recursion
  on the rest of the list: a flag that takes a value reads the next element, or its
  default when there is none, and the loop resumes after it.
\<close>

type_synonym jsnum = "real option"

record ParsedFlags =
  urls :: "string list"
  method_f :: string
  connections :: jsnum
  duration :: jsnum
  rate :: "jsnum option"
  timeout :: jsnum
  rampUp :: "jsnum option"
  warmup :: "jsnum option"
  headers :: "string \<rightharpoonup> string"
  body :: "string option"
  http2 :: bool
  output_f :: string
  outputFile :: "string option"
  p99Threshold :: "jsnum option"
  errorRateThreshold :: "jsnum option"
  compare_f :: bool
  help_f :: bool
  version_f :: bool

definition defaultFlags :: ParsedFlags where
  "defaultFlags =
     \<lparr>urls = [], method_f = ''GET'', connections = Some 50, duration = Some 10,
      rate = None, timeout = Some 5000, rampUp = None, warmup = None,
      headers = Map.empty,
      body = None, http2 = False, output_f = ''console'', outputFile = None,
      p99Threshold = None, errorRateThreshold = None, compare_f = False, help_f = False,
      version_f = False\<rparr>"

definition toUpperCase :: "string \<Rightarrow> string" where
  "toUpperCase s =
     map (\<lambda>c. let n = (of_char c :: nat)
              in if 97 \<le> n \<and> n \<le> 122 then char_of (n - 32) else c) s"

text \<open>
  A string is a list of 8-bit characters. Of these, \<open>trim\<close> strips the white space and
  line terminators of JavaScript: tab, line feed, vertical tab, form feed, carriage
  return, space and the no-break space \<open>U+00A0\<close>.
\<close>

definition is_space :: "char \<Rightarrow> bool" where
  "is_space c =
     (c \<in> {CHR '' '', CHR 0x09, CHR 0x0A, CHR 0x0B, CHR 0x0C, CHR 0x0D, CHR 0xA0})"

definition trim :: "string \<Rightarrow> string" where
  "trim s = rev (dropWhile is_space (rev (dropWhile is_space s)))"

definition indexOf :: "string \<Rightarrow> char \<Rightarrow> nat option" where
  "indexOf s c = (if c \<in> set s then Some (length (takeWhile (\<lambda>x. x \<noteq> c) s)) else None)"

definition nextArg :: "string list \<Rightarrow> string \<Rightarrow> string" where
  "nextArg rest dflt = (case rest of [] \<Rightarrow> dflt | v # _ \<Rightarrow> v)"

text \<open>
  \<open>flags.headers\<close> is a JavaScript object used as a dictionary from header names to
  values: a finite map, with \<open>hs(key \<mapsto> value)\<close> for the assignment \<open>hs[key] = value\<close>.
\<close>

definition setHeader :: "string \<Rightarrow> (string \<rightharpoonup> string) \<Rightarrow> (string \<rightharpoonup> string)" where
  "setHeader header hs =
     (case indexOf header CHR '':'' of
        None \<Rightarrow> hs
      | Some colonIndex \<Rightarrow>
          if colonIndex > 0
          then hs(trim (take colonIndex header) \<mapsto> trim (drop (colonIndex + 1) header))
          else hs)"

text \<open>
  One turn of the loop on the argument \<open>arg\<close>, with \<open>rest\<close> the arguments after it: the
  new flags, and whether the turn read the next argument as the value of \<open>arg\<close>
  (\<open>args[++i]\<close>), so that the loop resumes after it.
\<close>

definition parseFlags_step ::
  "(string \<Rightarrow> jsnum) \<Rightarrow> (string \<Rightarrow> jsnum) \<Rightarrow> string \<Rightarrow> string list \<Rightarrow> ParsedFlags
   \<Rightarrow> ParsedFlags \<times> bool"
where
  "parseFlags_step pInt pFloat arg rest flags =
     (if arg = ''-h'' \<or> arg = ''--help'' then
        (flags\<lparr>help_f := True\<rparr>, False)
      else if arg = ''-v'' \<or> arg = ''--version'' then
        (flags\<lparr>version_f := True\<rparr>, False)
      else if arg = ''--compare'' then
        (flags\<lparr>compare_f := True\<rparr>, False)
      else if arg = ''-c'' \<or> arg = ''--connections'' then
        (flags\<lparr>connections := pInt (nextArg rest ''50'')\<rparr>, True)
      else if arg = ''-d'' \<or> arg = ''--duration'' then
        (flags\<lparr>duration := pInt (nextArg rest ''10'')\<rparr>, True)
      else if arg = ''--rate'' then
        (flags\<lparr>rate := Some (pInt (nextArg rest ''0''))\<rparr>, True)
      else if arg = ''--ramp-up'' then
        (flags\<lparr>rampUp := Some (pInt (nextArg rest ''0''))\<rparr>, True)
      else if arg = ''--warmup'' then
        (flags\<lparr>warmup := Some (pInt (nextArg rest ''0''))\<rparr>, True)
      else if arg = ''--timeout'' then
        (flags\<lparr>timeout := pInt (nextArg rest ''5000'')\<rparr>, True)
      else if arg = ''-m'' \<or> arg = ''--method'' then
        (flags\<lparr>method_f := toUpperCase (nextArg rest ''GET'')\<rparr>, True)
      else if arg = ''-H'' \<or> arg = ''--header'' then
        (flags\<lparr>headers := setHeader (nextArg rest []) (headers flags)\<rparr>, True)
      else if arg = ''--body'' then
        (flags\<lparr>body := (case rest of [] \<Rightarrow> None | v # _ \<Rightarrow> Some v)\<rparr>, True)
      else if arg = ''--json'' then
        (flags\<lparr>body := (case rest of [] \<Rightarrow> None | v # _ \<Rightarrow> Some v),
                headers := (headers flags)(''Content-Type'' \<mapsto> ''application/json'')\<rparr>,
         True)
      else if arg = ''--http2'' then
        (flags\<lparr>http2 := True\<rparr>, False)
      else if arg = ''--output'' then
        (let format = nextArg rest ''console''
         in (if format = ''console'' \<or> format = ''json'' \<or> format = ''html''
                \<or> format = ''csv''
             then flags\<lparr>output_f := format\<rparr> else flags, True))
      else if arg = ''-o'' then
        (flags\<lparr>outputFile := (case rest of [] \<Rightarrow> None | v # _ \<Rightarrow> Some v)\<rparr>, True)
      else if arg = ''--p99'' then
        (flags\<lparr>p99Threshold := Some (pFloat (nextArg rest ''0''))\<rparr>, True)
      else if arg = ''--error-rate'' then
        (flags\<lparr>errorRateThreshold := Some (pFloat (nextArg rest ''0''))\<rparr>, True)
      else if take 1 arg \<noteq> ''-'' then
        (flags\<lparr>urls := urls flags @ [arg]\<rparr>, False)
      else (flags, False))"

fun parseFlags_loop ::
  "(string \<Rightarrow> jsnum) \<Rightarrow> (string \<Rightarrow> jsnum) \<Rightarrow> string list \<Rightarrow> ParsedFlags \<Rightarrow> ParsedFlags"
where
  "parseFlags_loop pInt pFloat [] flags = flags"
| "parseFlags_loop pInt pFloat (arg # rest) flags =
     parseFlags_loop pInt pFloat
       (if snd (parseFlags_step pInt pFloat arg rest flags) then tl rest else rest)
       (fst (parseFlags_step pInt pFloat arg rest flags))"

definition parseFlags :: "(string \<Rightarrow> jsnum) \<Rightarrow> (string \<Rightarrow> jsnum) \<Rightarrow> string list \<Rightarrow> ParsedFlags" where
  "parseFlags pInt pFloat args = parseFlags_loop pInt pFloat args defaultFlags"

record ThresholdConfig =
  p99_t :: "jsnum option"
  p95_t :: "jsnum option"
  errorRate_t :: "jsnum option"
  minRps_t :: "jsnum option"

record BenchConfig =
  url_c :: string
  method_c :: "string option"
  headers_c :: "(string \<rightharpoonup> string) option"
  body_c :: "string option"
  connections_c :: "jsnum option"
  duration_c :: "jsnum option"
  rate_c :: "jsnum option"
  timeout_c :: "jsnum option"
  rampUp_c :: "jsnum option"
  warmup_c :: "jsnum option"
  http2_c :: "bool option"
  output_c :: "string option"
  outputFile_c :: "string option"
  thresholds_c :: "ThresholdConfig option"
  info_c :: "bool option"

definition flagsToConfig :: "ParsedFlags \<Rightarrow> BenchConfig option" where
  "flagsToConfig flags =
     (case urls flags of
        [] \<Rightarrow> None
      | url # _ \<Rightarrow> Some
        \<lparr>url_c = url,
         method_c = Some (method_f flags),
         headers_c = Some (headers flags),
         body_c = body flags,
         connections_c = Some (connections flags),
         duration_c = Some (duration flags),
         rate_c = rate flags,
         timeout_c = Some (timeout flags),
         rampUp_c = rampUp flags,
         warmup_c = warmup flags,
         http2_c = Some (http2 flags),
         output_c = Some (output_f flags),
         outputFile_c = outputFile flags,
         thresholds_c =
           (if p99Threshold flags \<noteq> None \<or> errorRateThreshold flags \<noteq> None
            then Some \<lparr>p99_t = p99Threshold flags, p95_t = None,
                       errorRate_t = errorRateThreshold flags, minRps_t = None\<rparr>
            else None),
         info_c = None\<rparr>)"

section \<open>Commands (cli/commands/run.ts, cli/index.ts)\<close>

text \<open>
  The commands talk to the network, to the file system and to the terminal. The model
  gives them as arguments the outcome of the reachability probe, the outcome of
  \<open>runBenchmark\<close> (a thrown error is \<open>Inl\<close> of its message) and the outcome of
  \<open>writeFileSync\<close> on a path (\<open>None\<close> when the file is written, \<open>Some\<close> of the message of the
  error that it throws otherwise). A command returns its exit code together with the
  warnings and errors printed, in order; informational lines, other than the one that
  says that the report is saved, are left out.
\<close>

datatype Reporter = ConsoleReporter | JsonReporter | HtmlReporter | CsvReporter

definition getReporter :: "string \<Rightarrow> Reporter" where
  "getReporter format =
     (if format = ''json'' then JsonReporter
      else if format = ''html'' then HtmlReporter
      else if format = ''csv'' then CsvReporter
      else ConsoleReporter)"

datatype reachability = Reachable int | Unreachable string

datatype log_line =
    TargetNotReachable string
  | P99Exceeds real jsnum
  | ErrorRateExceeds real jsnum
  | BenchmarkError string
  | ReportSaved string
  | Skipping string string
  | FailedUrl string string
  | NoSuccessfulBenchmarks

text \<open>\<open>x > y\<close> on JavaScript numbers: false when \<open>y\<close> is \<open>NaN\<close>.\<close>

definition js_gt :: "real \<Rightarrow> jsnum \<Rightarrow> bool" where
  "js_gt x y = (case y of None \<Rightarrow> False | Some v \<Rightarrow> x > v)"

definition checkThresholds :: "BenchResult \<Rightarrow> BenchConfig \<Rightarrow> nat \<times> log_line list" where
  "checkThresholds result config =
     (case thresholds_c config of
        None \<Rightarrow> (EXIT_SUCCESS, [])
      | Some t \<Rightarrow>
          (case p99_t t of
             Some p99v \<Rightarrow>
               if js_gt (p99 (latency_r result)) p99v
               then (EXIT_THRESHOLD_EXCEEDED, [P99Exceeds (p99 (latency_r result)) p99v])
               else (case errorRate_t t of
                       Some errorRate \<Rightarrow>
                         if requests_total result > 0
                         then (let actualErrorRate =
                                     real (requests_failed result) / real (requests_total result)
                               in if js_gt actualErrorRate errorRate
                                  then (EXIT_THRESHOLD_EXCEEDED,
                                        [ErrorRateExceeds actualErrorRate errorRate])
                                  else (EXIT_SUCCESS, []))
                         else (EXIT_SUCCESS, [])
                     | None \<Rightarrow> (EXIT_SUCCESS, []))
           | None \<Rightarrow>
               (case errorRate_t t of
                  Some errorRate \<Rightarrow>
                    if requests_total result > 0
                    then (let actualErrorRate =
                                real (requests_failed result) / real (requests_total result)
                          in if js_gt actualErrorRate errorRate
                             then (EXIT_THRESHOLD_EXCEEDED,
                                   [ErrorRateExceeds actualErrorRate errorRate])
                             else (EXIT_SUCCESS, []))
                    else (EXIT_SUCCESS, [])
                | None \<Rightarrow> (EXIT_SUCCESS, []))))"

definition configTimeout :: "BenchConfig \<Rightarrow> jsnum" where
  "configTimeout config = (case timeout_c config of None \<Rightarrow> Some 5000 | Some t \<Rightarrow> t)"

text \<open>
  The write of the report, where the configuration names an output file: \<open>Inr\<close> of the
  lines printed, or \<open>Inl\<close> of the message of the error thrown by \<open>writeFileSync\<close>.
\<close>

definition savedReport :: "(string \<Rightarrow> string option) \<Rightarrow> BenchConfig \<Rightarrow> string + log_line list" where
  "savedReport writeFile config =
     (case outputFile_c config of
        None \<Rightarrow> Inr []
      | Some f \<Rightarrow> (case writeFile f of None \<Rightarrow> Inr [ReportSaved f] | Some message \<Rightarrow> Inl message))"

text \<open>
  In \<open>runCommand\<close> the write is inside the \<open>try\<close> block, whose \<open>catch\<close> prints the message and
  returns \<open>EXIT_CODES.ERROR\<close>.
\<close>

definition runCommand ::
  "(string \<Rightarrow> jsnum \<Rightarrow> reachability) \<Rightarrow> (BenchConfig \<Rightarrow> string + BenchResult)
   \<Rightarrow> (string \<Rightarrow> string option) \<Rightarrow> BenchConfig \<Rightarrow> nat \<times> log_line list \<times> Reporter option"
where
  "runCommand probe bench writeFile config =
     (case probe (url_c config) (configTimeout config) of
        Unreachable err \<Rightarrow> (EXIT_ERROR, [TargetNotReachable err], None)
      | Reachable statusCode \<Rightarrow>
          (case bench config of
             Inl message \<Rightarrow> (EXIT_ERROR, [BenchmarkError message], None)
           | Inr result \<Rightarrow>
               (let reporter = getReporter (case output_c config of
                                              None \<Rightarrow> ''console'' | Some f \<Rightarrow> f)
                in case savedReport writeFile config of
                     Inl message \<Rightarrow> (EXIT_ERROR, [BenchmarkError message], Some reporter)
                   | Inr saved \<Rightarrow>
                       (let checked = checkThresholds result config
                        in (fst checked, saved @ snd checked, Some reporter)))))"

record CompareResult =
  url_cr :: string
  rps_cr :: real
  p50_cr :: real
  p99_cr :: real
  errorRate_cr :: real

definition compare_step ::
  "(string \<Rightarrow> jsnum \<Rightarrow> reachability) \<Rightarrow> (BenchConfig \<Rightarrow> string + BenchResult) \<Rightarrow> BenchConfig
   \<Rightarrow> string \<Rightarrow> CompareResult list \<times> log_line list \<Rightarrow> CompareResult list \<times> log_line list"
where
  "compare_step probe bench config url acc =
     (case probe url (configTimeout config) of
        Unreachable err \<Rightarrow> (fst acc, snd acc @ [Skipping url err])
      | Reachable statusCode \<Rightarrow>
          (case bench (config\<lparr>url_c := url\<rparr>) of
             Inl message \<Rightarrow> (fst acc, snd acc @ [FailedUrl url message])
           | Inr result \<Rightarrow>
               (let errorRate =
                      (if requests_total result > 0
                       then (real (requests_failed result) / real (requests_total result)) * 100
                       else 0)
                in (fst acc @ [\<lparr>url_cr = url, rps_cr = throughput_rps result,
                                 p50_cr = p50 (latency_r result),
                                 p99_cr = p99 (latency_r result),
                                 errorRate_cr = errorRate\<rparr>],
                    snd acc))))"

text \<open>
  In \<open>compareCommand\<close> the write of the report is outside every \<open>try\<close> block: an error
  thrown by \<open>writeFileSync\<close> leaves the function, which then returns no exit code
  (\<open>Inl\<close> of the message).
\<close>

definition compareCommand ::
  "(string \<Rightarrow> jsnum \<Rightarrow> reachability) \<Rightarrow> (BenchConfig \<Rightarrow> string + BenchResult)
   \<Rightarrow> (string \<Rightarrow> string option) \<Rightarrow> string list \<Rightarrow> BenchConfig
   \<Rightarrow> string + nat \<times> log_line list \<times> CompareResult list"
where
  "compareCommand probe bench writeFile targets config =
     (let acc = fold (compare_step probe bench config) targets ([], [])
      in if fst acc = [] then Inr (EXIT_ERROR, snd acc @ [NoSuccessfulBenchmarks], [])
         else (case savedReport writeFile config of
                 Inl message \<Rightarrow> Inl message
               | Inr saved \<Rightarrow> Inr (EXIT_SUCCESS, snd acc @ saved, fst acc)))"

text \<open>What \<open>main\<close> decides from the parsed flags before it runs a command.\<close>

datatype dispatch = Exit nat | Compare "string list" BenchConfig | Run BenchConfig

definition main_dispatch :: "ParsedFlags \<Rightarrow> dispatch" where
  "main_dispatch flags =
     (if help_f flags then Exit EXIT_SUCCESS
      else if version_f flags then Exit EXIT_SUCCESS
      else if urls flags = [] then Exit EXIT_ERROR
      else (case flagsToConfig flags of
              None \<Rightarrow> Exit EXIT_ERROR
            | Some config \<Rightarrow>
                if compare_f flags \<and> length (urls flags) > 1 then Compare (urls flags) config
                else Run config))"

text \<open>
  The exit code of the process: \<open>main\<close> exits with the code that the command returns, and
  the handler \<open>main().catch\<close> exits with \<open>EXIT_CODES.ERROR\<close> when the command throws.
\<close>

definition main_exit ::
  "(string \<Rightarrow> jsnum \<Rightarrow> reachability) \<Rightarrow> (BenchConfig \<Rightarrow> string + BenchResult)
   \<Rightarrow> (string \<Rightarrow> string option) \<Rightarrow> ParsedFlags \<Rightarrow> nat"
where
  "main_exit probe bench writeFile flags =
     (case main_dispatch flags of
        Exit exitCode \<Rightarrow> exitCode
      | Compare targets config \<Rightarrow>
          (case compareCommand probe bench writeFile targets config of
             Inl message \<Rightarrow> EXIT_ERROR
           | Inr r \<Rightarrow> fst r)
      | Run config \<Rightarrow> fst (runCommand probe bench writeFile config))"

section \<open>Quantities the properties speak about\<close>

text \<open>The sum of all buckets, and the cumulative count up to and including bucket \<open>i\<close>.\<close>

definition bucketTotal :: "Histogram \<Rightarrow> nat" where
  "bucketTotal h = sum_list (map unat (buckets h))"

definition cumulativeCount :: "Histogram \<Rightarrow> nat \<Rightarrow> nat" where
  "cumulativeCount h i = sum_list (map unat (take (Suc i) (buckets h)))"

text \<open>The bucket that \<open>record\<close> selects for a sample.\<close>

definition bucketOf :: "int \<Rightarrow> int" where
  "bucketOf v =
     min (min v (MAX_LATENCY_US - 1) div BUCKET_WIDTH_US) (int HISTOGRAM_BUCKETS - 1)"

text \<open>The sum of the per-status counters of an error breakdown.\<close>

definition statusTotal :: "status_record \<Rightarrow> nat" where
  "statusTotal r = sum_list (map snd r)"

text \<open>All that one run of one worker makes the orchestrator's aggregator hold.\<close>

definition aggregate_run :: "nat \<Rightarrow> loop_event list \<Rightarrow> MetricsAggregator" where
  "aggregate_run wid evs =
     fold addSnapshot (snapshots_of (run_loop wid evs createInitialState)) createAggregator"


text \<open>
  The shape of every Histogram that the constructor, \<open>record\<close> of samples up to
  \<open>MAX_SAFE_INTEGER\<close> and \<open>merge\<close> can build: the full array of buckets, and the initial
  \<open>min\<close> and \<open>max\<close> while nothing is recorded.
\<close>

definition wellFormed :: "Histogram \<Rightarrow> bool" where
  "wellFormed h =
     (length (buckets h) = HISTOGRAM_BUCKETS \<and> min_h h \<le> MAX_SAFE_INTEGER \<and> 0 \<le> max_h h
      \<and> (count_h h = 0 \<longrightarrow> min_h h = MAX_SAFE_INTEGER \<and> max_h h = 0))"

text \<open>What \<open>addStatusCode\<close> does to the finite map that \<open>statusCodes\<close> denotes.\<close>

definition addStatusMap :: "int \<times> nat \<Rightarrow> (int \<rightharpoonup> nat) \<Rightarrow> (int \<rightharpoonup> nat)" where
  "addStatusMap entry m =
     (case entry of (statusCode, cnt) \<Rightarrow>
        m(statusCode \<mapsto> (case m statusCode of None \<Rightarrow> 0 | Some e \<Rightarrow> e) + cnt))"

text \<open>The state of the loop after a sequence of completed request cycles.\<close>

definition run_cycles :: "outcome list \<Rightarrow> LoopState" where
  "run_cycles outs = fold executeRequest outs createInitialState"

text \<open>
  The orchestrator of \<open>n\<close> workers after the messages \<open>msgs\<close>, in the order received.
\<close>

definition orchestrate :: "nat \<Rightarrow> real \<Rightarrow> WorkerResponse list \<Rightarrow> Orchestrator" where
  "orchestrate n durationSec msgs =
     fold (handleWorkerMessage durationSec) msgs (createOrchestrator n)"

text \<open>
  Whether a target of compare mode yields a result: it passes the reachability probe
  and its benchmark does not throw.
\<close>

definition produces_result ::
  "(string \<Rightarrow> jsnum \<Rightarrow> reachability) \<Rightarrow> (BenchConfig \<Rightarrow> string + BenchResult) \<Rightarrow> BenchConfig
   \<Rightarrow> string \<Rightarrow> bool"
where
  "produces_result probe bench config url =
     (case probe url (configTimeout config) of
        Unreachable err \<Rightarrow> False
      | Reachable statusCode \<Rightarrow>
          (case bench (config\<lparr>url_c := url\<rparr>) of Inl message \<Rightarrow> False | Inr result \<Rightarrow> True))"

text \<open>The lines that only \<open>checkThresholds\<close> prints.\<close>

definition is_threshold_line :: "log_line \<Rightarrow> bool" where
  "is_threshold_line l =
     (case l of P99Exceeds x y \<Rightarrow> True | ErrorRateExceeds x y \<Rightarrow> True | _ \<Rightarrow> False)"

text \<open>The warnings of compare mode: a skipped or a failed target.\<close>

definition is_warning :: "log_line \<Rightarrow> bool" where
  "is_warning l = (case l of Skipping u e \<Rightarrow> True | FailedUrl u m \<Rightarrow> True | _ \<Rightarrow> False)"

text \<open>
  Sample data for the commands: a result whose p99 is 5 ms with every request failed,
  a configuration that sets both thresholds, and an environment in which the first of
  two targets is unreachable.
\<close>

definition sampleResult :: BenchResult where
  "sampleResult =
     \<lparr>requests_total = 10, requests_successful = 0, requests_failed = 10,
      throughput_rps = 5, throughput_bytesPerSecond = 0, throughput_totalBytes = 0,
      latency_r = \<lparr>min_ms = 1, max_ms = 6, mean_ms = 3, stddev_ms = Some 1, p50 = 3, p75 = 4,
                    p90 = 4, p95 = 5, p99 = 5, p999 = 6\<rparr>,
      errors_r = \<lparr>timeouts = 0, connectionErrors = 0, byStatusCode = [500 \<mapsto> 10]\<rparr>\<rparr>"

definition sampleConfig :: BenchConfig where
  "sampleConfig =
     \<lparr>url_c = ''http://a'', method_c = None, headers_c = None, body_c = None,
      connections_c = None, duration_c = None, rate_c = None, timeout_c = None,
      rampUp_c = None, warmup_c = None, http2_c = None, output_c = None,
      outputFile_c = None,
      thresholds_c = Some \<lparr>p99_t = Some (Some 1), p95_t = None,
                             errorRate_t = Some (Some 0), minRps_t = None\<rparr>,
      info_c = None\<rparr>"

definition sampleProbe :: "string \<Rightarrow> jsnum \<Rightarrow> reachability" where
  "sampleProbe url t = (if url = ''http://a'' then Unreachable ''refused'' else Reachable 200)"

definition sampleBench :: "BenchConfig \<Rightarrow> string + BenchResult" where
  "sampleBench config = Inr sampleResult"

text \<open>A disk on which every write succeeds, and one on which every write fails.\<close>

definition writableDisk :: "string \<Rightarrow> string option" where
  "writableDisk path = None"

definition readOnlyDisk :: "string \<Rightarrow> string option" where
  "readOnlyDisk path = Some ''EACCES: permission denied''"

section \<open>Properties of the Histogram\<close>

subsection \<open>The bucket of a sample\<close>

lemma bucketOf_nonneg: "0 \<le> v \<Longrightarrow> 0 \<le> bucketOf v"
  by (simp add: bucketOf_def MAX_LATENCY_US_def BUCKET_WIDTH_US_def HISTOGRAM_BUCKETS_def)

lemma bucketOf_less: "bucketOf v < int HISTOGRAM_BUCKETS"
  by (simp add: bucketOf_def MAX_LATENCY_US_def BUCKET_WIDTH_US_def HISTOGRAM_BUCKETS_def)

lemma bucketOf_floor: "bucketOf v = min v (MAX_LATENCY_US - 1) div BUCKET_WIDTH_US"
  by (simp add: bucketOf_def MAX_LATENCY_US_def BUCKET_WIDTH_US_def HISTOGRAM_BUCKETS_def)

lemma bucketOf_last: "MAX_LATENCY_US \<le> v \<Longrightarrow> bucketOf v = int HISTOGRAM_BUCKETS - 1"
  by (simp add: bucketOf_def MAX_LATENCY_US_def BUCKET_WIDTH_US_def HISTOGRAM_BUCKETS_def)

lemma record_us_eq:
  "record_us v h =
     \<lparr>buckets = (if 0 \<le> bucketOf v \<and> nat (bucketOf v) < length (buckets h)
                 then (buckets h)[nat (bucketOf v) := buckets h ! nat (bucketOf v) + 1]
                 else buckets h),
      count_h = count_h h + 1, min_h = min (min_h h) v, max_h = max (max_h h) v,
      sum_h = sum_h h + v\<rparr>"
  by (simp add: record_us_def bucketOf_def Let_def min_def max_def)

lemma record_us_in_range:
  assumes "0 \<le> v" "length (buckets h) = HISTOGRAM_BUCKETS"
  shows "record_us v h =
     \<lparr>buckets = (buckets h)[nat (bucketOf v) := buckets h ! nat (bucketOf v) + 1],
      count_h = count_h h + 1, min_h = min (min_h h) v, max_h = max (max_h h) v,
      sum_h = sum_h h + v\<rparr>"
proof -
  have "nat (bucketOf v) < length (buckets h)"
    using assms bucketOf_less [of v] bucketOf_nonneg [of v] by simp
  then show ?thesis
    using assms(1) by (simp add: record_us_eq bucketOf_nonneg)
qed

lemma length_record_us: "length (buckets (record_us v h)) = length (buckets h)"
  by (simp add: record_us_eq)

lemma count_record_us: "count_h (record_us v h) = count_h h + 1"
  by (simp add: record_us_eq)

subsection \<open>The sum of the buckets\<close>

lemma sum_unat_bump:
  fixes bs :: "32 word list"
  assumes "i < length bs" "sum_list (map unat bs) < 2 ^ 32 - 1"
  shows "sum_list (map unat (bs[i := bs ! i + 1])) = sum_list (map unat bs) + 1"
proof -
  have le: "unat (bs ! i) \<le> sum_list (map unat bs)"
    using assms(1) by (auto intro!: member_le_sum_list)
  then have "unat (bs ! i) + unat (1 :: 32 word) < 2 ^ LENGTH(32)"
    using assms(2) by simp
  then have u: "unat (bs ! i + 1) = unat (bs ! i) + 1"
    by (simp add: unat_add_lem [THEN iffD1])
  have "sum_list (map unat (bs[i := bs ! i + 1])) = sum_list ((map unat bs)[i := unat (bs ! i + 1)])"
    by (simp add: map_update)
  also have "\<dots> = sum_list (map unat bs) + unat (bs ! i + 1) - (map unat bs) ! i"
    using assms(1) by (simp add: sum_list_update)
  also have "\<dots> = sum_list (map unat bs) + 1"
    using assms(1) u by simp
  finally show ?thesis .
qed

lemma bucketTotal_record_us:
  assumes "0 \<le> v" "length (buckets h) = HISTOGRAM_BUCKETS" "bucketTotal h < 2 ^ 32 - 1"
  shows "bucketTotal (record_us v h) = bucketTotal h + 1"
proof -
  have i: "nat (bucketOf v) < length (buckets h)"
    using assms(1,2) bucketOf_less [of v] bucketOf_nonneg [of v] by simp
  then show ?thesis
    using assms(1,3) bucketOf_nonneg [of v]
    by (simp add: record_us_eq bucketTotal_def sum_unat_bump)
qed

lemma bucketTotal_createHistogram: "bucketTotal createHistogram = 0"
  by (simp add: bucketTotal_def createHistogram_def)

lemma fold_record_us_total:
  assumes "length (buckets h) = HISTOGRAM_BUCKETS" "bucketTotal h = count_h h"
    "\<forall>v\<in>set vs. 0 \<le> v" "count_h h + length vs < 2 ^ 32"
  shows "bucketTotal (fold record_us vs h) = count_h (fold record_us vs h)
         \<and> count_h (fold record_us vs h) = count_h h + length vs
         \<and> length (buckets (fold record_us vs h)) = HISTOGRAM_BUCKETS"
  using assms
proof (induction vs arbitrary: h)
  case Nil
  then show ?case by simp
next
  case (Cons v vs)
  have "bucketTotal (record_us v h) = count_h (record_us v h)"
    using Cons.prems by (simp add: bucketTotal_record_us count_record_us)
  moreover have "length (buckets (record_us v h)) = HISTOGRAM_BUCKETS"
    using Cons.prems by (simp add: length_record_us)
  moreover have "count_h (record_us v h) + length vs < 2 ^ 32"
    using Cons.prems by (simp add: count_record_us)
  ultimately show ?case
    using Cons.IH [of "record_us v h"] Cons.prems(3) by (simp add: count_record_us)
qed

subsection \<open>Minimum, mean and maximum\<close>

lemma mean_bounds_record_us:
  assumes "int (count_h h) * min_h h \<le> sum_h h" "sum_h h \<le> int (count_h h) * max_h h"
  shows "int (count_h (record_us v h)) * min_h (record_us v h) \<le> sum_h (record_us v h)
         \<and> sum_h (record_us v h) \<le> int (count_h (record_us v h)) * max_h (record_us v h)"
proof -
  let ?c = "int (count_h h)"
  have 1: "?c * min (min_h h) v \<le> ?c * min_h h"
    by (rule mult_left_mono) simp_all
  have 2: "?c * max_h h \<le> ?c * max (max_h h) v"
    by (rule mult_left_mono) simp_all
  have 3: "min (min_h h) v \<le> v" "v \<le> max (max_h h) v"
    by simp_all
  have lo: "(1 + ?c) * min (min_h h) v \<le> sum_h h + v"
    using 1 3(1) assms(1) by (simp add: distrib_right)
  have hi: "sum_h h + v \<le> (1 + ?c) * max (max_h h) v"
    using 2 3(2) assms(2) by (simp add: distrib_right)
  show ?thesis
    using lo hi by (simp add: record_us_eq)
qed

lemma mean_bounds_fold:
  assumes "int (count_h h) * min_h h \<le> sum_h h" "sum_h h \<le> int (count_h h) * max_h h"
  shows "int (count_h (fold record_us vs h)) * min_h (fold record_us vs h)
           \<le> sum_h (fold record_us vs h)
         \<and> sum_h (fold record_us vs h)
           \<le> int (count_h (fold record_us vs h)) * max_h (fold record_us vs h)"
  using assms
proof (induction vs arbitrary: h)
  case Nil
  then show ?case by simp
next
  case (Cons v vs)
  show ?case
    using Cons.IH [of "record_us v h"] mean_bounds_record_us [OF Cons.prems, of v] by simp
qed

lemma max_h_fold: "max_h (fold record_us vs h) = Max (insert (max_h h) (set vs))"
proof (induction vs arbitrary: h)
  case Nil
  then show ?case by simp
next
  case (Cons v vs)
  have "Max (insert (max (max_h h) v) (set vs)) = Max (insert (max_h h) (insert v (set vs)))"
    by (cases "set vs = {}") (simp_all add: max.assoc)
  then show ?case using Cons.IH [of "record_us v h"] by (simp add: record_us_eq)
qed

lemma min_h_fold: "min_h (fold record_us vs h) = Min (insert (min_h h) (set vs))"
proof (induction vs arbitrary: h)
  case Nil
  then show ?case by simp
next
  case (Cons v vs)
  have "Min (insert (min (min_h h) v) (set vs)) = Min (insert (min_h h) (insert v (set vs)))"
    by (cases "set vs = {}") (simp_all add: min.assoc)
  then show ?case using Cons.IH [of "record_us v h"] by (simp add: record_us_eq)
qed

lemma mean_between:
  assumes "int (count_h h) * min_h h \<le> sum_h h" "sum_h h \<le> int (count_h h) * max_h h"
    "count_h h > 0"
  shows "real_of_int (getMin h) \<le> getMean h \<and> getMean h \<le> real_of_int (getMax h)"
proof -
  have c: "0 < real (count_h h)" using assms(3) by simp
  have "real_of_int (int (count_h h) * min_h h) \<le> real_of_int (sum_h h)"
    using assms(1) by (metis of_int_le_iff)
  then have 1: "real_of_int (min_h h) * real (count_h h) \<le> real_of_int (sum_h h)"
    by (simp add: mult.commute)
  have "real_of_int (sum_h h) \<le> real_of_int (int (count_h h) * max_h h)"
    using assms(2) by (metis of_int_le_iff)
  then have 2: "real_of_int (sum_h h) \<le> real_of_int (max_h h) * real (count_h h)"
    by (simp add: mult.commute)
  show ?thesis
    using assms(3) c 1 2 by (simp add: getMin_def getMean_def getMax_def le_divide_eq divide_le_eq)
qed

lemma recorded_summary:
  assumes "\<forall>x\<in>set vs. 0 \<le> x" "length vs < 2 ^ 32"
  shows "bucketTotal (fold record_us vs createHistogram) = count_h (fold record_us vs createHistogram)
    \<and> count_h (fold record_us vs createHistogram) = length vs
    \<and> real_of_int (getMin (fold record_us vs createHistogram))
        \<le> getMean (fold record_us vs createHistogram)
    \<and> getMean (fold record_us vs createHistogram)
        \<le> real_of_int (getMax (fold record_us vs createHistogram))
    \<and> getMax (fold record_us vs createHistogram) = Max (insert 0 (set vs))
    \<and> min_h (fold record_us vs createHistogram) = Min (insert MAX_SAFE_INTEGER (set vs))"
proof -
  let ?H = "fold record_us vs createHistogram"
  have l0: "length (buckets createHistogram) = HISTOGRAM_BUCKETS"
    by (simp add: createHistogram_def)
  have c0: "count_h createHistogram = 0"
    by (simp add: createHistogram_def)
  have tot: "bucketTotal ?H = count_h ?H \<and> count_h ?H = count_h createHistogram + length vs
             \<and> length (buckets ?H) = HISTOGRAM_BUCKETS"
    by (rule fold_record_us_total)
       (use assms l0 c0 bucketTotal_createHistogram in simp_all)
  have cnt: "count_h ?H = length vs"
    using tot by (simp add: createHistogram_def)
  have mx: "getMax ?H = Max (insert 0 (set vs))"
    by (simp add: getMax_def max_h_fold createHistogram_def)
  have mn: "min_h ?H = Min (insert MAX_SAFE_INTEGER (set vs))"
    by (simp add: min_h_fold createHistogram_def)
  have inv: "int (count_h ?H) * min_h ?H \<le> sum_h ?H \<and> sum_h ?H \<le> int (count_h ?H) * max_h ?H"
    by (rule mean_bounds_fold) (simp_all add: createHistogram_def)
  have between: "real_of_int (getMin ?H) \<le> getMean ?H \<and> getMean ?H \<le> real_of_int (getMax ?H)"
  proof (cases "vs = []")
    case True
    then show ?thesis
      by (simp add: getMin_def getMean_def getMax_def createHistogram_def)
  next
    case False
    then have "count_h ?H > 0" using cnt by simp
    with inv show ?thesis by (simp add: mean_between)
  qed
  show ?thesis using tot cnt mx mn between by simp
qed

text \<open>
  Claim C2, as the code has it. For every whole number of microseconds \<open>v \<ge> 0\<close> and every
  Histogram with its full bucket array, \<open>record(v)\<close> caps \<open>v\<close> at \<open>L_max - 1\<close> only to choose
  the bucket \<open>\<lfloor>min(v, L_max - 1) / w\<rfloor>\<close>, an index in \<open>[0, B - 1]\<close> that is the last bucket
  for samples \<open>\<ge> L_max\<close>; it increments that bucket and updates count, sum, min and max
  with \<open>v\<close> itself, not with the capped value. Consequently, after any sequence of fewer
  than \<open>2 ^ 32\<close> records of such values on a new Histogram, the buckets sum to the
  count, \<open>min \<le> mean \<le> max\<close>, and max is the largest recorded value (0 when there is none),
  which \<open>L_max - 1\<close> does not bound.
\<close>

theorem record_updates_with_unclamped_value:
  "(0 \<le> v \<and> length (buckets h) = HISTOGRAM_BUCKETS \<longrightarrow>
      bucketOf v = min v (MAX_LATENCY_US - 1) div BUCKET_WIDTH_US
      \<and> 0 \<le> bucketOf v \<and> bucketOf v < int HISTOGRAM_BUCKETS
      \<and> (MAX_LATENCY_US \<le> v \<longrightarrow> bucketOf v = int HISTOGRAM_BUCKETS - 1)
      \<and> record_us v h =
          \<lparr>buckets = (buckets h)[nat (bucketOf v) := buckets h ! nat (bucketOf v) + 1],
           count_h = count_h h + 1, min_h = min (min_h h) v, max_h = max (max_h h) v,
           sum_h = sum_h h + v\<rparr>)
   \<and> ((\<forall>x\<in>set vs. 0 \<le> x) \<and> length vs < 2 ^ 32 \<longrightarrow>
      bucketTotal (fold record_us vs createHistogram) = count_h (fold record_us vs createHistogram)
      \<and> count_h (fold record_us vs createHistogram) = length vs
      \<and> real_of_int (getMin (fold record_us vs createHistogram))
          \<le> getMean (fold record_us vs createHistogram)
      \<and> getMean (fold record_us vs createHistogram)
          \<le> real_of_int (getMax (fold record_us vs createHistogram))
      \<and> getMax (fold record_us vs createHistogram) = Max (insert 0 (set vs))
      \<and> min_h (fold record_us vs createHistogram) = Min (insert MAX_SAFE_INTEGER (set vs)))"
proof (intro conjI impI)
  assume a: "0 \<le> v \<and> length (buckets h) = HISTOGRAM_BUCKETS"
  show "bucketOf v = min v (MAX_LATENCY_US - 1) div BUCKET_WIDTH_US"
    by (rule bucketOf_floor)
  show "0 \<le> bucketOf v" using a by (simp add: bucketOf_nonneg)
  show "bucketOf v < int HISTOGRAM_BUCKETS" by (rule bucketOf_less)
  show "record_us v h =
          \<lparr>buckets = (buckets h)[nat (bucketOf v) := buckets h ! nat (bucketOf v) + 1],
           count_h = count_h h + 1, min_h = min (min_h h) v, max_h = max (max_h h) v,
           sum_h = sum_h h + v\<rparr>"
    using a by (simp add: record_us_in_range)
next
  assume "0 \<le> v \<and> length (buckets h) = HISTOGRAM_BUCKETS" "MAX_LATENCY_US \<le> v"
  then show "bucketOf v = int HISTOGRAM_BUCKETS - 1" by (simp add: bucketOf_last)
next
  assume b: "(\<forall>x\<in>set vs. 0 \<le> x) \<and> length vs < 2 ^ 32"
  then have s: "bucketTotal (fold record_us vs createHistogram) = count_h (fold record_us vs createHistogram)
    \<and> count_h (fold record_us vs createHistogram) = length vs
    \<and> real_of_int (getMin (fold record_us vs createHistogram))
        \<le> getMean (fold record_us vs createHistogram)
    \<and> getMean (fold record_us vs createHistogram)
        \<le> real_of_int (getMax (fold record_us vs createHistogram))
    \<and> getMax (fold record_us vs createHistogram) = Max (insert 0 (set vs))
    \<and> min_h (fold record_us vs createHistogram) = Min (insert MAX_SAFE_INTEGER (set vs))"
    by (intro recorded_summary) simp_all
  show "bucketTotal (fold record_us vs createHistogram) = count_h (fold record_us vs createHistogram)"
    using s by simp
  show "count_h (fold record_us vs createHistogram) = length vs" using s by simp
  show "real_of_int (getMin (fold record_us vs createHistogram))
          \<le> getMean (fold record_us vs createHistogram)" using s by simp
  show "getMean (fold record_us vs createHistogram)
          \<le> real_of_int (getMax (fold record_us vs createHistogram))" using s by simp
  show "getMax (fold record_us vs createHistogram) = Max (insert 0 (set vs))" using s by simp
  show "min_h (fold record_us vs createHistogram) = Min (insert MAX_SAFE_INTEGER (set vs))"
    using s by simp
qed

theorem record_updates_with_unclamped_value_witness:
  "(0::int) \<le> 20000000 \<and> length (buckets createHistogram) = HISTOGRAM_BUCKETS
   \<and> (0::int) \<le> 1500 \<and> length [1500, 20000000 :: int] < 2 ^ 32
   \<and> bucketOf 20000000 = 9999
   \<and> max_h (record_us 20000000 createHistogram) = 20000000
   \<and> sum_h (record_us 20000000 createHistogram) = 20000000
   \<and> bucketTotal (fold record_us [1500, 20000000] createHistogram) = 2
   \<and> getMax (fold record_us [1500, 20000000] createHistogram) = 20000000"
  using record_updates_with_unclamped_value
          [of 20000000 createHistogram "[1500, 20000000]"]
  by (simp add: createHistogram_def HISTOGRAM_BUCKETS_def MAX_LATENCY_US_def)

theorem record_exceeds_clamp_counterexample:
  "max_h (record_us 20000000 createHistogram) = 20000000
   \<and> \<not> max_h (record_us 20000000 createHistogram) \<le> MAX_LATENCY_US - 1
   \<and> sum_h (record_us 20000000 createHistogram) = 20000000
   \<and> bucketTotal (record_us (- 5) createHistogram) = 0
   \<and> count_h (record_us (- 5) createHistogram) = 1"
  by (simp add: record_us_eq bucketOf_def bucketTotal_def createHistogram_def
        HISTOGRAM_BUCKETS_def MAX_LATENCY_US_def BUCKET_WIDTH_US_def)

subsection \<open>Merging\<close>

lemma merge_h_fields:
  "count_h (merge_h a b) = count_h a + count_h b"
  "sum_h (merge_h a b) = sum_h a + sum_h b"
  "min_h (merge_h a b) = (if count_h b > 0 then min (min_h a) (min_h b) else min_h a)"
  "max_h (merge_h a b) = (if count_h b > 0 then max (max_h a) (max_h b) else max_h a)"
  "length (buckets (merge_h a b)) = length (buckets a)"
  by (auto simp add: merge_h_def import_data_def export_data_def)

lemma merge_h_bucket:
  "i < length (buckets a) \<Longrightarrow> i < HISTOGRAM_BUCKETS \<Longrightarrow> i < length (buckets b) \<Longrightarrow>
   buckets (merge_h a b) ! i = buckets a ! i + buckets b ! i"
  by (simp add: merge_h_def import_data_def export_data_def import_bucket_def)

lemma buckets_import_import:
  "buckets (import_data c (import_data b a)) = buckets (import_data b (import_data c a))"
  by (rule nth_equalityI) (simp_all add: import_data_def import_bucket_def)

lemma merge_h_left_commute: "merge_h (merge_h a b) c = merge_h (merge_h a c) b"
proof (rule Histogram.equality)
  show "buckets (merge_h (merge_h a b) c) = buckets (merge_h (merge_h a c) b)"
    unfolding merge_h_def by (rule buckets_import_import)
qed (auto simp add: merge_h_fields)

lemma wellFormed_createHistogram: "wellFormed createHistogram"
  by (simp add: wellFormed_def createHistogram_def MAX_SAFE_INTEGER_def)

lemma wellFormed_record_us: "wellFormed h \<Longrightarrow> wellFormed (record_us v h)"
  by (simp add: wellFormed_def record_us_eq min.coboundedI1 max.coboundedI1)

lemma wellFormed_merge: "wellFormed a \<Longrightarrow> wellFormed b \<Longrightarrow> wellFormed (merge_h a b)"
  by (auto simp add: wellFormed_def merge_h_fields)

lemma merge_h_commute:
  assumes "wellFormed a" "wellFormed b"
  shows "merge_h a b = merge_h b a"
proof (rule Histogram.equality)
  show "buckets (merge_h a b) = buckets (merge_h b a)"
    using assms
    by (intro nth_equalityI)
       (simp_all add: merge_h_fields merge_h_bucket wellFormed_def add.commute)
qed (use assms in \<open>auto simp add: merge_h_fields wellFormed_def\<close>)

lemma merge_h_assoc:
  assumes "wellFormed a" "wellFormed b" "wellFormed c"
  shows "merge_h (merge_h a b) c = merge_h a (merge_h b c)"
proof (rule Histogram.equality)
  show "buckets (merge_h (merge_h a b) c) = buckets (merge_h a (merge_h b c))"
    using assms
    by (intro nth_equalityI)
       (simp_all add: merge_h_fields merge_h_bucket wellFormed_def add.assoc)
qed (use assms in \<open>auto simp add: merge_h_fields wellFormed_def\<close>)

lemma merge_h_min_max:
  assumes "wellFormed a" "wellFormed b"
  shows "min_h (merge_h a b) = min (min_h a) (min_h b)"
    and "max_h (merge_h a b) = max (max_h a) (max_h b)"
  using assms by (auto simp add: merge_h_fields wellFormed_def)

text \<open>
  Claim C3. Merging \<open>b\<close> then \<open>c\<close> into \<open>a\<close> gives the same Histogram (bucket array, count,
  sum, min and max), hence the same percentiles, as merging \<open>c\<close> then \<open>b\<close> into \<open>a\<close>. Each
  merge adds the counts and the sums, and takes the min and max across both operands
  when the merged-in Histogram holds a sample. On Histograms of the shape the class
  builds (all with the same \<open>B\<close> buckets of width \<open>w\<close>), merge adds the buckets
  elementwise, takes the min and max across both operands, and is commutative and
  associative.
\<close>

theorem merge_order_independent:
  "merge_h (merge_h a b) c = merge_h (merge_h a c) b
   \<and> getPercentile p (merge_h (merge_h a b) c) = getPercentile p (merge_h (merge_h a c) b)
   \<and> count_h (merge_h a b) = count_h a + count_h b
   \<and> sum_h (merge_h a b) = sum_h a + sum_h b
   \<and> min_h (merge_h a b) = (if count_h b > 0 then min (min_h a) (min_h b) else min_h a)
   \<and> max_h (merge_h a b) = (if count_h b > 0 then max (max_h a) (max_h b) else max_h a)
   \<and> (wellFormed a \<and> wellFormed b \<longrightarrow>
        wellFormed (merge_h a b)
        \<and> merge_h a b = merge_h b a
        \<and> min_h (merge_h a b) = min (min_h a) (min_h b)
        \<and> max_h (merge_h a b) = max (max_h a) (max_h b)
        \<and> (\<forall>i<HISTOGRAM_BUCKETS. buckets (merge_h a b) ! i = buckets a ! i + buckets b ! i))
   \<and> (wellFormed a \<and> wellFormed b \<and> wellFormed c \<longrightarrow>
        merge_h (merge_h a b) c = merge_h a (merge_h b c))"
proof -
  have 1: "merge_h (merge_h a b) c = merge_h (merge_h a c) b"
    by (rule merge_h_left_commute)
  have 2: "getPercentile p (merge_h (merge_h a b) c) = getPercentile p (merge_h (merge_h a c) b)"
    by (simp add: merge_h_left_commute [of a b c])
  have 3: "wellFormed a \<and> wellFormed b \<longrightarrow>
        wellFormed (merge_h a b)
        \<and> merge_h a b = merge_h b a
        \<and> min_h (merge_h a b) = min (min_h a) (min_h b)
        \<and> max_h (merge_h a b) = max (max_h a) (max_h b)
        \<and> (\<forall>i<HISTOGRAM_BUCKETS. buckets (merge_h a b) ! i = buckets a ! i + buckets b ! i)"
  proof (intro impI conjI allI)
    assume w: "wellFormed a \<and> wellFormed b"
    show "wellFormed (merge_h a b)" using w by (simp add: wellFormed_merge)
    show "merge_h a b = merge_h b a" using w by (simp add: merge_h_commute)
    show "min_h (merge_h a b) = min (min_h a) (min_h b)" using w by (simp add: merge_h_min_max)
    show "max_h (merge_h a b) = max (max_h a) (max_h b)" using w by (simp add: merge_h_min_max)
    fix i
    assume "i < HISTOGRAM_BUCKETS"
    then show "buckets (merge_h a b) ! i = buckets a ! i + buckets b ! i"
      using w by (simp add: merge_h_bucket wellFormed_def)
  qed
  have 4: "wellFormed a \<and> wellFormed b \<and> wellFormed c \<longrightarrow>
        merge_h (merge_h a b) c = merge_h a (merge_h b c)"
    by (simp add: merge_h_assoc)
  show ?thesis
    using 1 2 3 4 merge_h_fields(1-4) [of a b] by blast
qed

theorem merge_order_independent_witness:
  "wellFormed (record_us 1500 createHistogram)
   \<and> wellFormed (record_us 2500 createHistogram)
   \<and> wellFormed createHistogram
   \<and> (1::nat) < HISTOGRAM_BUCKETS
   \<and> merge_h (merge_h (record_us 1500 createHistogram) (record_us 2500 createHistogram))
        createHistogram
     = merge_h (merge_h (record_us 1500 createHistogram) createHistogram)
        (record_us 2500 createHistogram)
   \<and> merge_h (record_us 1500 createHistogram) (record_us 2500 createHistogram)
     = merge_h (record_us 2500 createHistogram) (record_us 1500 createHistogram)
   \<and> merge_h (merge_h (record_us 1500 createHistogram) (record_us 2500 createHistogram))
        createHistogram
     = merge_h (record_us 1500 createHistogram)
        (merge_h (record_us 2500 createHistogram) createHistogram)
   \<and> count_h (merge_h (record_us 1500 createHistogram) (record_us 2500 createHistogram)) = 2
   \<and> sum_h (merge_h (record_us 1500 createHistogram) (record_us 2500 createHistogram)) = 4000
   \<and> min_h (merge_h (record_us 1500 createHistogram) (record_us 2500 createHistogram)) = 1500
   \<and> max_h (merge_h (record_us 1500 createHistogram) (record_us 2500 createHistogram)) = 2500
   \<and> buckets (merge_h (record_us 1500 createHistogram) (record_us 2500 createHistogram)) ! 1
     = buckets (record_us 1500 createHistogram) ! 1 + buckets (record_us 2500 createHistogram) ! 1"
proof -
  let ?A = "record_us 1500 createHistogram"
  let ?B = "record_us 2500 createHistogram"
  have wa: "wellFormed ?A" and wb: "wellFormed ?B" and wc: "wellFormed createHistogram"
    by (simp_all add: wellFormed_record_us wellFormed_createHistogram)
  have one: "(1::nat) < HISTOGRAM_BUCKETS"
    by (simp add: HISTOGRAM_BUCKETS_def)
  have fields: "count_h ?A = 1" "count_h ?B = 1" "sum_h ?A = 1500" "sum_h ?B = 2500"
    "min_h ?A = 1500" "min_h ?B = 2500" "max_h ?A = 1500" "max_h ?B = 2500"
    by (simp_all add: record_us_eq createHistogram_def MAX_SAFE_INTEGER_def)
  note th = merge_order_independent [of ?A ?B createHistogram 50]
  from th have e1: "merge_h (merge_h ?A ?B) createHistogram = merge_h (merge_h ?A createHistogram) ?B"
    by blast
  from th wa wb have e2: "merge_h ?A ?B = merge_h ?B ?A"
    by blast
  from th wa wb wc have e3: "merge_h (merge_h ?A ?B) createHistogram
      = merge_h ?A (merge_h ?B createHistogram)"
    by blast
  from th have "count_h (merge_h ?A ?B) = count_h ?A + count_h ?B"
    by blast
  then have f1: "count_h (merge_h ?A ?B) = 2"
    by (simp add: fields)
  from th have "sum_h (merge_h ?A ?B) = sum_h ?A + sum_h ?B"
    by blast
  then have f2: "sum_h (merge_h ?A ?B) = 4000"
    by (simp add: fields)
  from th wa wb have "min_h (merge_h ?A ?B) = min (min_h ?A) (min_h ?B)"
    by blast
  then have f3: "min_h (merge_h ?A ?B) = 1500"
    by (simp add: fields)
  from th wa wb have "max_h (merge_h ?A ?B) = max (max_h ?A) (max_h ?B)"
    by blast
  then have f4: "max_h (merge_h ?A ?B) = 2500"
    by (simp add: fields)
  from th wa wb one have f5: "buckets (merge_h ?A ?B) ! 1 = buckets ?A ! 1 + buckets ?B ! 1"
    by blast
  show ?thesis
    by (intro conjI) (fact wa wb wc one e1 e2 e3 f1 f2 f3 f4 f5)+
qed

subsection \<open>Percentiles\<close>

lemma take_Suc_sum:
  fixes bs :: "32 word list"
  assumes "i < length bs"
  shows "sum_list (map unat (take (Suc i) bs)) = sum_list (map unat (take i bs)) + unat (bs ! i)"
  using assms by (simp add: take_Suc_conv_app_nth)

lemma scan_first:
  assumes "length (buckets h) = HISTOGRAM_BUCKETS" "k < HISTOGRAM_BUCKETS" "i \<le> k"
    "T \<le> int (cumulativeCount h k)"
    "\<forall>j. i \<le> j \<and> j < k \<longrightarrow> int (cumulativeCount h j) < T"
    "c = sum_list (map unat (take i (buckets h)))"
  shows "getPercentile_scan h T c i = bucketMidpoint k"
  using assms
proof (induction "k - i" arbitrary: i c)
  case 0
  then have ik: "i = k" by simp
  have "c + unat (buckets h ! i) = cumulativeCount h k"
    using 0 ik by (simp add: cumulativeCount_def take_Suc_sum)
  then show ?case
    using 0 ik by (subst getPercentile_scan.simps) simp
next
  case (Suc n)
  then have lt: "i < k" by simp
  have cum: "c + unat (buckets h ! i) = cumulativeCount h i"
    using Suc.prems lt by (simp add: cumulativeCount_def take_Suc_sum)
  have small: "int (cumulativeCount h i) < T"
    using Suc.prems(5) lt by simp
  have rec: "getPercentile_scan h T (cumulativeCount h i) (i + 1) = bucketMidpoint k"
  proof (rule Suc.hyps(1))
    show "n = k - (i + 1)" using Suc.hyps(2) by simp
    show "i + 1 \<le> k" using lt by simp
    show "\<forall>j. i + 1 \<le> j \<and> j < k \<longrightarrow> int (cumulativeCount h j) < T"
      using Suc.prems(5) by simp
    show "cumulativeCount h i = sum_list (map unat (take (i + 1) (buckets h)))"
      by (simp add: cumulativeCount_def)
  qed (use Suc.prems in simp_all)
  show ?case
  proof (subst getPercentile_scan.simps)
    have "i < HISTOGRAM_BUCKETS" "i < length (buckets h)"
      using Suc.prems(1,2) lt by simp_all
    moreover have "\<not> T \<le> int (c + unat (buckets h ! i))"
      using small cum by simp
    ultimately show "(if i < HISTOGRAM_BUCKETS then
        (let cumulative' = (if i < length (buckets h)
                            then c + unat (buckets h ! i) else c)
         in if int cumulative' \<ge> T then bucketMidpoint i
            else getPercentile_scan h T cumulative' (i + 1))
      else real_of_int MAX_LATENCY_US) = bucketMidpoint k"
      using rec cum by (simp add: Let_def)
  qed
qed

lemma cumulative_last:
  assumes "length (buckets h) = HISTOGRAM_BUCKETS"
  shows "cumulativeCount h (HISTOGRAM_BUCKETS - 1) = bucketTotal h"
  using assms by (simp add: cumulativeCount_def bucketTotal_def HISTOGRAM_BUCKETS_def)

lemma percentile_reached:
  assumes "length (buckets h) = HISTOGRAM_BUCKETS" "0 < count_h h" "k < HISTOGRAM_BUCKETS"
    "percentileTarget p (count_h h) \<le> int (cumulativeCount h k)"
    "\<forall>j<k. int (cumulativeCount h j) < percentileTarget p (count_h h)"
  shows "getPercentile p h = bucketMidpoint k"
proof -
  have "getPercentile_scan h (percentileTarget p (count_h h)) 0 0 = bucketMidpoint k"
    by (rule scan_first) (use assms in auto)
  then show ?thesis
    using assms(2) by (simp add: getPercentile_def)
qed

lemma empty_histogram_statistics:
  "count_h h = 0 \<Longrightarrow> getPercentile p h = 0 \<and> getMean h = 0 \<and> getStdDev h = Some 0"
  "count_h h < 2 \<Longrightarrow> getStdDev h = Some 0"
  by (simp_all add: getPercentile_def getMean_def getStdDev_def)

subsection \<open>Evaluating the rounding of doubles\<close>

lemma bitLength_0: "bitLength 0 = 0"
  by (subst bitLength.simps) simp

lemma bitLength_Suc0: "bitLength (Suc 0) = Suc 0"
  by (subst bitLength.simps) (simp add: bitLength_0)

lemma bitLength_1: "bitLength 1 = 1"
  using bitLength_Suc0 by simp

lemma bitLength_Bit0: "bitLength (numeral (Num.Bit0 n)) = Suc (bitLength (numeral n))"
  by (subst bitLength.simps) simp

lemma bitLength_Bit1: "bitLength (numeral (Num.Bit1 n)) = Suc (bitLength (numeral n))"
  by (subst bitLength.simps) simp

lemma bitLength_One: "bitLength (numeral Num.One) = 1"
  using bitLength_Suc0 by simp

lemmas double_eval =
  nearestDouble_def ulpExponent_def roundHalfEven_def ilog2_def pow2_def
  bitLength_0 bitLength_Suc0 bitLength_1 bitLength_Bit0 bitLength_Bit1 bitLength_One

lemma nearestDouble_examples:
  "nearestDouble 1000 = 1000" "nearestDouble (1 / 2) = 1 / 2" "nearestDouble (- 3) = - 3"
  "nearestDouble (1 / 10) = 3602879701896397 / 36028797018963968"
  "nearestDouble (999 / 10) = 3514918771674317 / 35184372088832"
  "nearestDouble (28 / 100) = 1261007895663739 / 4503599627370496"
  by (simp_all add: double_eval)

lemma percentileTarget_28_of_25: "percentileTarget 28 25 = 8"
  by (simp add: percentileTarget_def double_eval)

lemma percentileTarget_p999_of_1000: "percentileTarget (nearestDouble (999 / 10)) 1000 = 1000"
  by (simp add: percentileTarget_def double_eval)

lemma toMs_2500: "toMs 2500 = 5 / 2"
  by (simp add: toMs_def double_eval)

text \<open>
  \<open>roundTo(1.005, 2)\<close> is 1, not 1.01: the double of \<open>1.005\<close> lies below it, and its product
  with 100 is rounded to \<open>100.49999999999999\<close>.
\<close>

lemma roundTo_two_decimals:
  "roundTo v 2 = nearestDouble (real_of_int \<lfloor>nearestDouble (v * 100) + 1 / 2\<rfloor> / 100)"
  by (simp add: roundTo_def Let_def)

lemma roundTo_1005: "roundTo (nearestDouble (1005 / 1000)) 2 = 1"
proof -
  have v: "nearestDouble (1005 / 1000) = 1131529406376837 / 1125899906842624"
    by (simp add: double_eval)
  have m: "nearestDouble (1131529406376837 / 1125899906842624 * 100)
             = 7072058789855231 / 70368744177664"
    by (simp add: double_eval)
  have r: "\<lfloor>(7072058789855231 / 70368744177664 :: real) + 1 / 2\<rfloor> = 100"
    by simp
  have q: "nearestDouble (100 / 100) = 1"
    by (simp add: double_eval)
  show ?thesis
    unfolding roundTo_two_decimals v m r using q by simp
qed

subsection \<open>A Histogram of two latencies\<close>

lemma fold_record_us_replicate:
  assumes "0 \<le> v" "length (buckets h) = HISTOGRAM_BUCKETS"
  shows "buckets (fold record_us (replicate n v) h)
           = (buckets h)[nat (bucketOf v) := buckets h ! nat (bucketOf v) + of_nat n]
         \<and> count_h (fold record_us (replicate n v) h) = count_h h + n"
  using assms(2)
proof (induction n arbitrary: h)
  case 0
  then show ?case by simp
next
  case (Suc n)
  have i: "nat (bucketOf v) < length (buckets h)"
    using assms(1) Suc.prems bucketOf_less [of v] bucketOf_nonneg [of v] by simp
  have r: "buckets (record_us v h)
      = (buckets h)[nat (bucketOf v) := buckets h ! nat (bucketOf v) + 1]"
    "count_h (record_us v h) = count_h h + 1"
    using record_us_in_range [OF assms(1) Suc.prems] by simp_all
  have "length (buckets (record_us v h)) = HISTOGRAM_BUCKETS"
    using Suc.prems by (simp add: length_record_us)
  from Suc.IH [OF this] show ?case
    using i by (simp add: r add.assoc)
qed

lemma two_latencies:
  "buckets (fold record_us (replicate m 1500 @ replicate n 2500) createHistogram)
     = (replicate HISTOGRAM_BUCKETS 0)[1 := of_nat m, 2 := of_nat n]
   \<and> count_h (fold record_us (replicate m 1500 @ replicate n 2500) createHistogram) = m + n"
proof -
  define h1 where "h1 = fold record_us (replicate m 1500) createHistogram"
  define h2 where "h2 = fold record_us (replicate n 2500) h1"
  have split: "fold record_us (replicate m 1500 @ replicate n 2500) createHistogram = h2"
    unfolding h1_def h2_def by (simp only: fold_append comp_apply)
  have b1: "nat (bucketOf 1500) = 1" and b2: "nat (bucketOf 2500) = 2"
    by (simp_all add: bucketOf_def MAX_LATENCY_US_def BUCKET_WIDTH_US_def HISTOGRAM_BUCKETS_def)
  have l0: "length (buckets createHistogram) = HISTOGRAM_BUCKETS"
    and c0: "count_h createHistogram = 0"
    and z0: "buckets createHistogram = replicate HISTOGRAM_BUCKETS 0"
    by (simp_all add: createHistogram_def)
  have "buckets h1 = (buckets createHistogram)
            [nat (bucketOf 1500) := buckets createHistogram ! nat (bucketOf 1500) + of_nat m]
        \<and> count_h h1 = count_h createHistogram + m"
    unfolding h1_def by (rule fold_record_us_replicate) (simp_all add: l0)
  then have h1: "buckets h1 = (replicate HISTOGRAM_BUCKETS 0)[1 := of_nat m]" "count_h h1 = m"
    unfolding b1 z0 c0 by (simp_all add: HISTOGRAM_BUCKETS_def)
  have l1: "length (buckets h1) = HISTOGRAM_BUCKETS"
    unfolding h1 by simp
  have "buckets h2
          = (buckets h1)[nat (bucketOf 2500) := buckets h1 ! nat (bucketOf 2500) + of_nat n]
        \<and> count_h h2 = count_h h1 + n"
    unfolding h2_def by (rule fold_record_us_replicate) (simp_all add: l1)
  then have "buckets h2 = (replicate HISTOGRAM_BUCKETS 0)[1 := of_nat m, 2 := of_nat n]
        \<and> count_h h2 = m + n"
    unfolding b2 h1 by (simp add: HISTOGRAM_BUCKETS_def)
  then show ?thesis
    unfolding split .
qed

lemma cumulativeCount_two_latencies:
  assumes "buckets h = (replicate HISTOGRAM_BUCKETS 0)[1 := a, 2 := b]"
  shows "cumulativeCount h 0 = 0" "cumulativeCount h 1 = unat a"
    "cumulativeCount h 2 = unat a + unat b"
  unfolding cumulativeCount_def assms
  by (simp_all add: HISTOGRAM_BUCKETS_def take_update_swap take_update_cancel map_update
        sum_list_update)

lemma getPercentile_two_latencies:
  assumes "m < 2 ^ 32" "n < 2 ^ 32" "0 < m + n"
    "int m < percentileTarget p (m + n)" "percentileTarget p (m + n) \<le> int (m + n)"
  shows "getPercentile p (fold record_us (replicate m 1500 @ replicate n 2500) createHistogram)
           = 2500"
proof -
  let ?H = "fold record_us (replicate m 1500 @ replicate n 2500) createHistogram"
  have b: "buckets ?H = (replicate HISTOGRAM_BUCKETS 0)[1 := of_nat m, 2 := of_nat n]"
    and c: "count_h ?H = m + n"
    using two_latencies [of m n] by simp_all
  have um: "unat (of_nat m :: 32 word) = m" and un: "unat (of_nat n :: 32 word) = n"
    using assms(1,2) by (simp_all add: unat_of_nat take_bit_nat_eq_self)
  have cum: "cumulativeCount ?H 0 = 0" "cumulativeCount ?H 1 = m" "cumulativeCount ?H 2 = m + n"
    using cumulativeCount_two_latencies [OF b] um un by simp_all
  have "getPercentile p ?H = bucketMidpoint 2"
  proof (rule percentile_reached)
    show "length (buckets ?H) = HISTOGRAM_BUCKETS" unfolding b by simp
    show "0 < count_h ?H" unfolding c by (rule assms(3))
    show "2 < HISTOGRAM_BUCKETS" by (simp add: HISTOGRAM_BUCKETS_def)
    show "percentileTarget p (count_h ?H) \<le> int (cumulativeCount ?H 2)"
      unfolding c cum by (rule assms(5))
    show "\<forall>j<2. int (cumulativeCount ?H j) < percentileTarget p (count_h ?H)"
    proof (intro allI impI)
      fix j :: nat
      assume "j < 2"
      then have "j = 0 \<or> j = 1" by auto
      then show "int (cumulativeCount ?H j) < percentileTarget p (count_h ?H)"
        unfolding c using cum assms(4) by auto
    qed
  qed
  then show ?thesis
    by (simp add: bucketMidpoint_def BUCKET_WIDTH_US_def MAX_LATENCY_US_def HISTOGRAM_BUCKETS_def)
qed

text \<open>
  Claim C7, on the code. \<open>getPercentile(p)\<close> returns the midpoint of the first bucket whose
  cumulative count reaches its target, 0 when count is 0, and the mean and the standard
  deviation are 0 then too. But the target is computed in doubles, as
  \<open>Math.ceil((percentile / 100) * count)\<close>, and the rounding of the quotient can lift the
  product above the integer \<open>(p / 100) * count\<close>: the target is then one more than
  \<open>\<lceil>(p / 100) * count\<rceil>\<close>. With 25 samples and \<open>p = 28\<close> the quotient is
  \<open>0.28000000000000003\<close>, the product \<open>7.000000000000001\<close> and the target 8, where
  \<open>\<lceil>0.28 * 25\<rceil> = 7\<close>: after 7 samples of 1500 microseconds and 18 of 2500, the first bucket
  whose cumulative count reaches 7 is bucket 1, of midpoint 1500, and \<open>getPercentile(28)\<close>
  returns 2500. The \<open>p999\<close> of the program does the same when count is a multiple of 1000:
  after 999 samples of 1500 microseconds and one of 2500, \<open>\<lceil>0.999 * 1000\<rceil> = 999\<close> is reached
  by bucket 1, the program computes \<open>999.0000000000001\<close> and the target 1000, and reports
  2.5 milliseconds.
\<close>

theorem percentile_target_rounds_up:
  "count_h (fold record_us (replicate 7 1500 @ replicate 18 2500) createHistogram) = 25
   \<and> \<lceil>((28::real) / 100) * 25\<rceil> = 7
   \<and> cumulativeCount (fold record_us (replicate 7 1500 @ replicate 18 2500) createHistogram) 0 = 0
   \<and> cumulativeCount (fold record_us (replicate 7 1500 @ replicate 18 2500) createHistogram) 1 = 7
   \<and> bucketMidpoint 1 = 1500
   \<and> percentileTarget 28 25 = 8
   \<and> getPercentile 28 (fold record_us (replicate 7 1500 @ replicate 18 2500) createHistogram)
       = 2500
   \<and> count_h (fold record_us (replicate 999 1500 @ replicate 1 2500) createHistogram) = 1000
   \<and> \<lceil>((999::real) / 10 / 100) * 1000\<rceil> = 999
   \<and> cumulativeCount (fold record_us (replicate 999 1500 @ replicate 1 2500) createHistogram) 0
       = 0
   \<and> cumulativeCount (fold record_us (replicate 999 1500 @ replicate 1 2500) createHistogram) 1
       = 999
   \<and> percentileTarget (nearestDouble (999 / 10)) 1000 = 1000
   \<and> getPercentile (nearestDouble (999 / 10))
        (fold record_us (replicate 999 1500 @ replicate 1 2500) createHistogram) = 2500
   \<and> p999 (calculatePercentiles
        (fold record_us (replicate 999 1500 @ replicate 1 2500) createHistogram)) = 5 / 2"
proof -
  let ?A = "fold record_us (replicate 7 1500 @ replicate 18 2500) createHistogram"
  let ?B = "fold record_us (replicate 999 1500 @ replicate 1 2500) createHistogram"
  have a: "buckets ?A = (replicate HISTOGRAM_BUCKETS 0)[1 := 7, 2 := 18]" "count_h ?A = 25"
    using two_latencies [of 7 18] by simp_all
  have b: "buckets ?B = (replicate HISTOGRAM_BUCKETS 0)[1 := 999, 2 := 1]" "count_h ?B = 1000"
    using two_latencies [of 999 1] by simp_all
  have ca: "cumulativeCount ?A 0 = 0" "cumulativeCount ?A 1 = 7"
    using cumulativeCount_two_latencies [OF a(1)] by simp_all
  have cb: "cumulativeCount ?B 0 = 0" "cumulativeCount ?B 1 = 999"
    using cumulativeCount_two_latencies [OF b(1)] by simp_all
  have ea: "\<lceil>((28::real) / 100) * 25\<rceil> = 7" by simp
  have eb: "\<lceil>((999::real) / 10 / 100) * 1000\<rceil> = 999" by simp
  have mid: "bucketMidpoint 1 = 1500"
    by (simp add: bucketMidpoint_def BUCKET_WIDTH_US_def MAX_LATENCY_US_def HISTOGRAM_BUCKETS_def)
  have ga: "getPercentile 28 ?A = 2500"
    by (rule getPercentile_two_latencies) (simp_all add: percentileTarget_28_of_25)
  have gb: "getPercentile (nearestDouble (999 / 10)) ?B = 2500"
    by (rule getPercentile_two_latencies) (simp_all add: percentileTarget_p999_of_1000)
  have pb: "p999 (calculatePercentiles ?B) = 5 / 2"
    unfolding calculatePercentiles_def using gb toMs_2500 by simp
  show ?thesis
    by (intro conjI)
      (fact a(2) ea ca mid percentileTarget_28_of_25 ga b(2) eb cb
         percentileTarget_p999_of_1000 gb pb)+
qed

section \<open>Properties of the request loop\<close>

lemma record_put_keys: "fst ` set (record_put k v r) = insert k (fst ` set r)"
proof (induction r)
  case Nil
  then show ?case by simp
next
  case (Cons p r)
  obtain k' v' where p: "p = (k', v')" by (cases p)
  show ?case
    using Cons p by (cases "k = k'"; cases "k < k'") auto
qed

lemma record_put_sorted:
  "sorted_wrt (<) (map fst r) \<Longrightarrow> sorted_wrt (<) (map fst (record_put k v r))"
proof (induction r)
  case Nil
  then show ?case by simp
next
  case (Cons p r)
  obtain k' v' where p: "p = (k', v')" by (cases p)
  show ?case
  proof (cases "k = k' \<or> k < k'")
    case True
    then show ?thesis using Cons.prems p by auto
  next
    case False
    then have "k' < k" by simp
    moreover have "fst ` set (record_put k v r) = insert k (fst ` set r)"
      by (rule record_put_keys)
    ultimately show ?thesis
      using Cons False p by auto
  qed
qed

lemma map_of_record_put: "map_of (record_put k v r) = (map_of r)(k \<mapsto> v)"
  by (induction r) (auto simp: fun_upd_twist)

lemma statusTotal_record_put:
  "sorted_wrt (<) (map fst r) \<Longrightarrow>
   statusTotal (record_put k v r) + (case map_of r k of None \<Rightarrow> 0 | Some c \<Rightarrow> c)
     = statusTotal r + v"
proof (induction r)
  case Nil
  then show ?case by (simp add: statusTotal_def)
next
  case (Cons p r)
  obtain k' v' where p: "p = (k', v')" by (cases p)
  consider "k = k'" | "k < k'" | "k' < k" by linarith
  then show ?case
  proof cases
    case 1
    then show ?thesis using p by (simp add: statusTotal_def)
  next
    case 2
    have "k \<notin> fst ` set r"
      using Cons.prems p 2 by force
    then have "map_of r k = None"
      by (simp add: map_of_eq_None_iff)
    then show ?thesis using p 2 by (simp add: statusTotal_def)
  next
    case 3
    have "statusTotal (record_put k v r) + (case map_of r k of None \<Rightarrow> 0 | Some c \<Rightarrow> c)
            = statusTotal r + v"
      using Cons by simp
    then show ?thesis using p 3 by (simp add: statusTotal_def)
  qed
qed

lemma executeRequest_response_success:
  assumes "code \<in> SUCCESS_STATUS_CODES"
  shows "executeRequest (Response code nb lat) st =
     st\<lparr>requests := requests st + 1, latencies := latencies st @ [lat],
        bytes := bytes st + nb, successful := successful st + 1\<rparr>"
  using assms by (simp add: executeRequest_def Let_def)

lemma executeRequest_response_failure:
  assumes "code \<notin> SUCCESS_STATUS_CODES"
  shows "executeRequest (Response code nb lat) st =
     st\<lparr>requests := requests st + 1, latencies := latencies st @ [lat],
        bytes := bytes st + nb, failed := failed st + 1,
        errors := (errors st)\<lparr>byStatusCode :=
          record_put code
            ((case map_of (byStatusCode (errors st)) code of None \<Rightarrow> 0 | Some c \<Rightarrow> c) + 1)
            (byStatusCode (errors st))\<rparr>\<rparr>"
  using assms by (simp add: executeRequest_def Let_def)

lemma includes_str_iff: "includes_str s t \<longleftrightarrow> (\<exists>pre post. s = pre @ t @ post)"
proof (induction s)
  case Nil
  then show ?case by auto
next
  case (Cons c cs)
  show ?case
  proof
    assume "includes_str (c # cs) t"
    then consider "take (length t) (c # cs) = t" | "includes_str cs t" by auto
    then show "\<exists>pre post. c # cs = pre @ t @ post"
    proof cases
      case 1
      then have "c # cs = [] @ t @ drop (length t) (c # cs)"
        by (metis append_Nil append_take_drop_id)
      then show ?thesis by blast
    next
      case 2
      then obtain pre post where "cs = pre @ t @ post" using Cons.IH by blast
      then have "c # cs = (c # pre) @ t @ post" by simp
      then show ?thesis by blast
    qed
  next
    assume "\<exists>pre post. c # cs = pre @ t @ post"
    then obtain pre post where e: "c # cs = pre @ t @ post" by blast
    show "includes_str (c # cs) t"
    proof (cases pre)
      case Nil
      then have "take (length t) (c # cs) = t" using e by simp
      then show ?thesis by simp
    next
      case (Cons d pre')
      then have "cs = pre' @ t @ post" using e by simp
      then have "includes_str cs t" using Cons.IH by blast
      then show ?thesis by simp
    qed
  qed
qed

lemma executeRequest_thrown:
  "executeRequest (Thrown err) st =
     (if (case err of
            ErrorObject message name \<Rightarrow>
              includes_str message ''timeout'' \<or> name = ''TimeoutError''
          | NonError \<Rightarrow> False)
      then st\<lparr>requests := requests st + 1, failed := failed st + 1,
              errors := (errors st)\<lparr>timeouts := timeouts (errors st) + 1\<rparr>\<rparr>
      else st\<lparr>requests := requests st + 1, failed := failed st + 1,
              errors := (errors st)\<lparr>connectionErrors := connectionErrors (errors st) + 1\<rparr>\<rparr>)"
  by (cases err) (simp_all add: executeRequest_def Let_def)

lemma executeRequest_inv:
  assumes "sorted_wrt (<) (map fst (byStatusCode (errors st)))"
    "timeouts (errors st) + connectionErrors (errors st) + statusTotal (byStatusCode (errors st))
       = failed st"
    "successful st + failed st = requests st"
  shows "sorted_wrt (<) (map fst (byStatusCode (errors (executeRequest out st))))
    \<and> timeouts (errors (executeRequest out st)) + connectionErrors (errors (executeRequest out st))
        + statusTotal (byStatusCode (errors (executeRequest out st)))
      = failed (executeRequest out st)
    \<and> successful (executeRequest out st) + failed (executeRequest out st)
      = requests (executeRequest out st)"
proof (cases out)
  case (Response code nb lat)
  show ?thesis
  proof (cases "code \<in> SUCCESS_STATUS_CODES")
    case True
    then show ?thesis
      using assms Response by (simp add: executeRequest_response_success)
  next
    case False
    have "statusTotal (record_put code
            ((case map_of (byStatusCode (errors st)) code of None \<Rightarrow> 0 | Some c \<Rightarrow> c) + 1)
            (byStatusCode (errors st)))
          = statusTotal (byStatusCode (errors st)) + 1"
      using statusTotal_record_put [OF assms(1), of code
          "(case map_of (byStatusCode (errors st)) code of None \<Rightarrow> 0 | Some c \<Rightarrow> c) + 1"]
      by simp
    then show ?thesis
      using assms Response False
      by (simp add: executeRequest_response_failure record_put_sorted)
  qed
next
  case (Thrown err)
  then show ?thesis
    using assms by (simp add: executeRequest_thrown)
qed

lemma run_cycles_inv:
  "sorted_wrt (<) (map fst (byStatusCode (errors (fold executeRequest outs st))))
    \<and> timeouts (errors (fold executeRequest outs st))
        + connectionErrors (errors (fold executeRequest outs st))
        + statusTotal (byStatusCode (errors (fold executeRequest outs st)))
      = failed (fold executeRequest outs st)
    \<and> successful (fold executeRequest outs st) + failed (fold executeRequest outs st)
      = requests (fold executeRequest outs st)"
  if "sorted_wrt (<) (map fst (byStatusCode (errors st)))"
    "timeouts (errors st) + connectionErrors (errors st) + statusTotal (byStatusCode (errors st))
       = failed st"
    "successful st + failed st = requests st"
  using that
proof (induction outs arbitrary: st)
  case Nil
  then show ?case by simp
next
  case (Cons out outs)
  have "sorted_wrt (<) (map fst (byStatusCode (errors (executeRequest out st))))
    \<and> timeouts (errors (executeRequest out st)) + connectionErrors (errors (executeRequest out st))
        + statusTotal (byStatusCode (errors (executeRequest out st)))
      = failed (executeRequest out st)
    \<and> successful (executeRequest out st) + failed (executeRequest out st)
      = requests (executeRequest out st)"
    by (rule executeRequest_inv) (use Cons.prems in simp_all)
  then show ?case
    using Cons.IH [of "executeRequest out st"] by simp
qed

lemma requests_executeRequest: "requests (executeRequest out st) = requests st + 1"
  by (cases out; cases "case out of Response c _ _ \<Rightarrow> c \<in> SUCCESS_STATUS_CODES | _ \<Rightarrow> True")
     (simp_all add: executeRequest_response_success executeRequest_response_failure
        executeRequest_thrown)

lemma requests_fold: "requests (fold executeRequest outs st) = requests st + length outs"
  by (induction outs arbitrary: st) (simp_all add: requests_executeRequest)

lemma run_cycles_counts:
  "timeouts (errors (run_cycles outs)) + connectionErrors (errors (run_cycles outs))
     + statusTotal (byStatusCode (errors (run_cycles outs))) = failed (run_cycles outs)
   \<and> successful (run_cycles outs) + failed (run_cycles outs) = requests (run_cycles outs)
   \<and> requests (run_cycles outs) = length outs"
proof -
  have "sorted_wrt (<) (map fst (byStatusCode (errors (fold executeRequest outs createInitialState))))
    \<and> timeouts (errors (fold executeRequest outs createInitialState))
        + connectionErrors (errors (fold executeRequest outs createInitialState))
        + statusTotal (byStatusCode (errors (fold executeRequest outs createInitialState)))
      = failed (fold executeRequest outs createInitialState)
    \<and> successful (fold executeRequest outs createInitialState)
        + failed (fold executeRequest outs createInitialState)
      = requests (fold executeRequest outs createInitialState)"
    by (rule run_cycles_inv) (simp_all add: createInitialState_def statusTotal_def)
  moreover have "requests (fold executeRequest outs createInitialState) = length outs"
    by (simp add: requests_fold createInitialState_def)
  ultimately show ?thesis by (simp add: run_cycles_def)
qed

lemma executeRequest_counters:
  "(code \<in> SUCCESS_STATUS_CODES \<longrightarrow>
        successful (executeRequest (Response code nb lat) (run_cycles outs))
          = successful (run_cycles outs) + 1
        \<and> failed (executeRequest (Response code nb lat) (run_cycles outs))
          = failed (run_cycles outs)
        \<and> errors (executeRequest (Response code nb lat) (run_cycles outs))
          = errors (run_cycles outs))
   \<and> (code \<notin> SUCCESS_STATUS_CODES \<longrightarrow>
        successful (executeRequest (Response code nb lat) (run_cycles outs))
          = successful (run_cycles outs)
        \<and> failed (executeRequest (Response code nb lat) (run_cycles outs))
          = failed (run_cycles outs) + 1
        \<and> map_of (byStatusCode (errors (executeRequest (Response code nb lat) (run_cycles outs))))
          = (map_of (byStatusCode (errors (run_cycles outs))))
              (code \<mapsto> (case map_of (byStatusCode (errors (run_cycles outs))) code of
                           None \<Rightarrow> 0 | Some c \<Rightarrow> c) + 1)
        \<and> statusTotal (byStatusCode (errors (executeRequest (Response code nb lat) (run_cycles outs))))
          = statusTotal (byStatusCode (errors (run_cycles outs))) + 1
        \<and> timeouts (errors (executeRequest (Response code nb lat) (run_cycles outs)))
          = timeouts (errors (run_cycles outs))
        \<and> connectionErrors (errors (executeRequest (Response code nb lat) (run_cycles outs)))
          = connectionErrors (errors (run_cycles outs)))
   \<and> successful (executeRequest (Thrown err) (run_cycles outs)) = successful (run_cycles outs)
   \<and> failed (executeRequest (Thrown err) (run_cycles outs)) = failed (run_cycles outs) + 1
   \<and> byStatusCode (errors (executeRequest (Thrown err) (run_cycles outs)))
       = byStatusCode (errors (run_cycles outs))
   \<and> timeouts (errors (executeRequest (Thrown err) (run_cycles outs)))
        + connectionErrors (errors (executeRequest (Thrown err) (run_cycles outs)))
       = timeouts (errors (run_cycles outs)) + connectionErrors (errors (run_cycles outs)) + 1
   \<and> (timeouts (errors (executeRequest (Thrown err) (run_cycles outs)))
         = timeouts (errors (run_cycles outs)) + 1
       \<longleftrightarrow> (\<exists>message name. err = ErrorObject message name
             \<and> ((\<exists>pre post. message = pre @ ''timeout'' @ post) \<or> name = ''TimeoutError'')))"
proof -
  let ?st = "run_cycles outs"
  have ok: "code \<in> SUCCESS_STATUS_CODES \<longrightarrow>
        successful (executeRequest (Response code nb lat) ?st) = successful ?st + 1
        \<and> failed (executeRequest (Response code nb lat) ?st) = failed ?st
        \<and> errors (executeRequest (Response code nb lat) ?st) = errors ?st"
    by (simp add: executeRequest_response_success)
  have inv: "sorted_wrt (<) (map fst (byStatusCode (errors ?st)))
    \<and> timeouts (errors ?st) + connectionErrors (errors ?st)
        + statusTotal (byStatusCode (errors ?st)) = failed ?st
    \<and> successful ?st + failed ?st = requests ?st"
    unfolding run_cycles_def
    by (rule run_cycles_inv) (simp_all add: createInitialState_def statusTotal_def)
  have tot: "statusTotal (record_put code
            ((case map_of (byStatusCode (errors ?st)) code of None \<Rightarrow> 0 | Some c \<Rightarrow> c) + 1)
            (byStatusCode (errors ?st)))
          = statusTotal (byStatusCode (errors ?st)) + 1"
    using statusTotal_record_put [of "byStatusCode (errors ?st)" code
          "(case map_of (byStatusCode (errors ?st)) code of None \<Rightarrow> 0 | Some c \<Rightarrow> c) + 1"] inv
    by simp
  have bad: "code \<notin> SUCCESS_STATUS_CODES \<longrightarrow>
        successful (executeRequest (Response code nb lat) ?st) = successful ?st
        \<and> failed (executeRequest (Response code nb lat) ?st) = failed ?st + 1
        \<and> map_of (byStatusCode (errors (executeRequest (Response code nb lat) ?st)))
          = (map_of (byStatusCode (errors ?st)))
              (code \<mapsto> (case map_of (byStatusCode (errors ?st)) code of
                           None \<Rightarrow> 0 | Some c \<Rightarrow> c) + 1)
        \<and> statusTotal (byStatusCode (errors (executeRequest (Response code nb lat) ?st)))
          = statusTotal (byStatusCode (errors ?st)) + 1
        \<and> timeouts (errors (executeRequest (Response code nb lat) ?st)) = timeouts (errors ?st)
        \<and> connectionErrors (errors (executeRequest (Response code nb lat) ?st))
          = connectionErrors (errors ?st)"
    using tot by (simp add: executeRequest_response_failure map_of_record_put)
  have thrown: "successful (executeRequest (Thrown err) ?st) = successful ?st
   \<and> failed (executeRequest (Thrown err) ?st) = failed ?st + 1
   \<and> byStatusCode (errors (executeRequest (Thrown err) ?st)) = byStatusCode (errors ?st)
   \<and> timeouts (errors (executeRequest (Thrown err) ?st))
        + connectionErrors (errors (executeRequest (Thrown err) ?st))
       = timeouts (errors ?st) + connectionErrors (errors ?st) + 1"
    by (simp add: executeRequest_thrown)
  have test: "timeouts (errors (executeRequest (Thrown err) ?st)) = timeouts (errors ?st) + 1
       \<longleftrightarrow> (\<exists>message name. err = ErrorObject message name
             \<and> ((\<exists>pre post. message = pre @ ''timeout'' @ post) \<or> name = ''TimeoutError''))"
    by (cases err) (simp_all add: executeRequest_thrown includes_str_iff)
  show ?thesis
    using ok bad thrown test by blast
qed

text \<open>
  Claim C6, on the code. After any sequence of completed request cycles the tallies add
  up: \<open>timeouts + connectionErrors + \<Sum> byStatusCode = failed\<close> and
  \<open>successful + failed = requests\<close> (\<open>run_cycles_counts\<close>), and every outcome changes the
  counters that the claim names (\<open>executeRequest_counters\<close>). But the loop does not count a
  timeout as a timeout. It takes a thrown value for a timeout when its message contains
  \<open>timeout\<close>, in lower case, or its name is \<open>TimeoutError\<close>. The client sets \<open>headersTimeout\<close>
  and \<open>bodyTimeout\<close> on the request of undici, which rejects a request that runs out of
  either time with an error of name \<open>HeadersTimeoutError\<close> and message
  \<open>Headers Timeout Error\<close>, or \<open>BodyTimeoutError\<close> and \<open>Body Timeout Error\<close>. Neither passes the
  test, and the loop counts the request under \<open>connectionErrors\<close>, leaving \<open>timeouts\<close> at 0.
\<close>

theorem request_timeouts_counted_as_connection_errors:
  "errors (run_cycles [Thrown (ErrorObject ''Headers Timeout Error'' ''HeadersTimeoutError'')])
     = \<lparr>timeouts = 0, connectionErrors = 1, byStatusCode = []\<rparr>
   \<and> failed (run_cycles [Thrown (ErrorObject ''Headers Timeout Error'' ''HeadersTimeoutError'')])
     = 1
   \<and> errors (run_cycles [Thrown (ErrorObject ''Body Timeout Error'' ''BodyTimeoutError'')])
     = \<lparr>timeouts = 0, connectionErrors = 1, byStatusCode = []\<rparr>
   \<and> errors (run_cycles
        [Thrown (ErrorObject ''Headers Timeout Error'' ''HeadersTimeoutError''),
         Response 200 10 1500,
         Thrown (ErrorObject ''Body Timeout Error'' ''BodyTimeoutError'')])
     = \<lparr>timeouts = 0, connectionErrors = 2, byStatusCode = []\<rparr>
   \<and> includes_str ''Headers Timeout Error'' ''timeout'' = False
   \<and> includes_str ''Headers Timeout Error'' ''Timeout'' = True
   \<and> errors (run_cycles [Thrown (ErrorObject ''socket timeout'' ''Error'')])
     = \<lparr>timeouts = 1, connectionErrors = 0, byStatusCode = []\<rparr>
   \<and> errors (run_cycles [Thrown (ErrorObject ''aborted'' ''TimeoutError'')])
     = \<lparr>timeouts = 1, connectionErrors = 0, byStatusCode = []\<rparr>"
proof -
  have ok: "(200::int) \<in> SUCCESS_STATUS_CODES"
    by (simp add: SUCCESS_STATUS_CODES_def)
  have h: "includes_str ''Headers Timeout Error'' ''timeout'' = False"
    and b: "includes_str ''Body Timeout Error'' ''timeout'' = False"
    and h': "includes_str ''Headers Timeout Error'' ''Timeout'' = True"
    and s: "includes_str ''socket timeout'' ''timeout'' = True"
    and a: "includes_str ''aborted'' ''timeout'' = False"
    by simp_all
  show ?thesis
    using ok h b h' s a
    by (simp add: run_cycles_def executeRequest_thrown executeRequest_response_success
          createInitialState_def)
qed

section \<open>Properties of the snapshots of a worker\<close>

lemma aggregator_handleWorkerMessage:
  "aggregator (handleWorkerMessage d m orch) =
     (case m of
        MetricsMsg p \<Rightarrow> addSnapshot p (aggregator orch)
      | DoneMsg p \<Rightarrow> addSnapshot p (aggregator orch)
      | _ \<Rightarrow> aggregator orch)"
  by (cases m)
     (simp_all add: handleWorkerMessage_def handleWorkerComplete_def handleWorkerError_def
        finalize_def settle_def Let_def)

lemma aggregator_fold_messages:
  "aggregator (fold (handleWorkerMessage d) msgs orch)
     = fold addSnapshot (snapshots_of msgs) (aggregator orch)"
proof (induction msgs arbitrary: orch)
  case Nil
  then show ?case by simp
next
  case (Cons m msgs)
  then show ?case
    by (cases m) (simp_all add: aggregator_handleWorkerMessage)
qed

lemma totalRequests_fold:
  "totalRequests (fold addSnapshot snaps a) = totalRequests a + sum_list (map requests snaps)"
  by (induction snaps arbitrary: a) (simp_all add: addSnapshot_def)

lemma count_h_fold_record_us: "count_h (fold record_us vs h) = count_h h + length vs"
  by (induction vs arbitrary: h) (simp_all add: count_record_us)

lemma histogram_count_fold:
  "count_h (histogram (fold addSnapshot snaps a))
     = count_h (histogram a) + sum_list (map (\<lambda>s. length (latencies s)) snaps)"
  by (induction snaps arbitrary: a) (simp_all add: addSnapshot_def count_h_fold_record_us)

text \<open>
  Claim C1, on the code. The aggregator adds up every snapshot it is sent, so the
  sum of \<open>snapshot.requests\<close> over all snapshots is \<open>result.requests.total\<close>. But
  \<open>getSnapshot\<close> copies the state of the loop, which is never reset, and a snapshot
  carries everything recorded since the worker started: one worker that completes a
  request, posts a periodic snapshot, completes a second request and ends posts
  snapshots of 1 and of 2 requests, the second repeating the latency sample of the
  first, and the result counts 3 requests and 3 latency samples where 2 requests were
  executed.
\<close>

theorem periodic_snapshots_are_cumulative:
  "totalRequests (aggregator (orchestrate n d msgs)) = sum_list (map requests (snapshots_of msgs))
   \<and> executed_requests
        [RequestCycle (Response 200 10 1500), MetricsTick, RequestCycle (Response 200 10 2500)] = 2
   \<and> map requests (snapshots_of (run_loop 0
        [RequestCycle (Response 200 10 1500), MetricsTick, RequestCycle (Response 200 10 2500)]
        createInitialState)) = [1, 2]
   \<and> map latencies (snapshots_of (run_loop 0
        [RequestCycle (Response 200 10 1500), MetricsTick, RequestCycle (Response 200 10 2500)]
        createInitialState)) = [[1500], [1500, 2500]]
   \<and> totalRequests (aggregate_run 0
        [RequestCycle (Response 200 10 1500), MetricsTick, RequestCycle (Response 200 10 2500)]) = 3
   \<and> count_h (histogram (aggregate_run 0
        [RequestCycle (Response 200 10 1500), MetricsTick, RequestCycle (Response 200 10 2500)])) = 3
   \<and> (case settled (orchestrate 1 2 (run_loop 0
        [RequestCycle (Response 200 10 1500), MetricsTick, RequestCycle (Response 200 10 2500)]
        createInitialState)) of
         Some (Inr result) \<Rightarrow> requests_total result | _ \<Rightarrow> 0) = 3"
proof -
  let ?evs = "[RequestCycle (Response 200 10 1500), MetricsTick,
               RequestCycle (Response 200 10 2500)]"
  let ?s1 = "executeRequest (Response 200 10 1500) createInitialState"
  let ?s2 = "executeRequest (Response 200 10 2500) ?s1"
  have ok: "(200::int) \<in> SUCCESS_STATUS_CODES"
    by (simp add: SUCCESS_STATUS_CODES_def)
  have msgs: "run_loop 0 ?evs createInitialState
      = [MetricsMsg (getSnapshot 0 ?s1), DoneMsg (getSnapshot 0 ?s2)]"
    by simp
  have r: "requests ?s1 = 1" "requests ?s2 = 2" "latencies ?s1 = [1500]"
    "latencies ?s2 = [1500, 2500]"
    using ok by (simp_all add: executeRequest_response_success createInitialState_def)
  have snaps: "map requests (snapshots_of (run_loop 0 ?evs createInitialState)) = [1, 2]"
    "map latencies (snapshots_of (run_loop 0 ?evs createInitialState)) = [[1500], [1500, 2500]]"
    unfolding msgs using r by (simp_all add: getSnapshot_def)
  have gen: "totalRequests (aggregator (orchestrate n d msgs))
      = sum_list (map requests (snapshots_of msgs))" for n d msgs
    by (simp add: orchestrate_def aggregator_fold_messages totalRequests_fold
          createOrchestrator_def createAggregator_def)
  have ex: "executed_requests ?evs = 2"
    by (simp add: executed_requests_def)
  have "totalRequests (aggregate_run 0 ?evs)
      = totalRequests createAggregator
        + sum_list (map requests (snapshots_of (run_loop 0 ?evs createInitialState)))"
    unfolding aggregate_run_def by (rule totalRequests_fold)
  then have tot: "totalRequests (aggregate_run 0 ?evs) = 3"
    unfolding snaps(1) by (simp add: createAggregator_def)
  have lens: "sum_list (map (\<lambda>s. length (latencies s))
        (snapshots_of (run_loop 0 ?evs createInitialState))) = 3"
    unfolding msgs using r by (simp add: getSnapshot_def)
  have "count_h (histogram (aggregate_run 0 ?evs))
      = count_h (histogram createAggregator)
        + sum_list (map (\<lambda>s. length (latencies s))
            (snapshots_of (run_loop 0 ?evs createInitialState)))"
    unfolding aggregate_run_def by (rule histogram_count_fold)
  then have cnt: "count_h (histogram (aggregate_run 0 ?evs)) = 3"
    unfolding lens by (simp add: createAggregator_def createHistogram_def)
  have agg: "totalRequests (aggregator (orchestrate 1 2 (run_loop 0 ?evs createInitialState))) = 3"
    using gen [of 1 2 "run_loop 0 ?evs createInitialState"] snaps(1) by simp
  have res: "(case settled (orchestrate 1 2 (run_loop 0 ?evs createInitialState)) of
         Some (Inr result) \<Rightarrow> requests_total result | _ \<Rightarrow> 0)
      = totalRequests (aggregator (orchestrate 1 2 (run_loop 0 ?evs createInitialState)))"
    unfolding msgs
    by (simp add: orchestrate_def handleWorkerMessage_def handleWorkerComplete_def
          finalize_def settle_def Let_def createOrchestrator_def getMetrics_def)
  show ?thesis
    using gen [of n d msgs] ex snaps tot cnt res agg by simp
qed

section \<open>Properties of the aggregator\<close>

lemma bump_swap:
  fixes bs :: "32 word list"
  assumes "i < length bs" "j < length bs"
  shows "(bs[j := bs ! j + 1])[i := (bs[j := bs ! j + 1]) ! i + 1]
       = (bs[i := bs ! i + 1])[j := (bs[i := bs ! i + 1]) ! j + 1]"
proof (cases "i = j")
  case True
  then show ?thesis by simp
next
  case False
  then show ?thesis using assms by (simp add: list_update_swap)
qed

lemma record_us_commute: "record_us v (record_us w h) = record_us w (record_us v h)"
proof (rule Histogram.equality)
  let ?i = "nat (bucketOf v)" and ?j = "nat (bucketOf w)" and ?bs = "buckets h"
  let ?P = "0 \<le> bucketOf v \<and> ?i < length ?bs"
  let ?Q = "0 \<le> bucketOf w \<and> ?j < length ?bs"
  show "buckets (record_us v (record_us w h)) = buckets (record_us w (record_us v h))"
  proof (cases ?P)
    case P: True
    show ?thesis
    proof (cases ?Q)
      case Q: True
      have "buckets (record_us v (record_us w h))
          = (?bs[?j := ?bs ! ?j + 1])[?i := (?bs[?j := ?bs ! ?j + 1]) ! ?i + 1]"
        using P Q by (simp add: record_us_eq)
      also have "\<dots> = (?bs[?i := ?bs ! ?i + 1])[?j := (?bs[?i := ?bs ! ?i + 1]) ! ?j + 1]"
        using P Q by (intro bump_swap) simp_all
      also have "\<dots> = buckets (record_us w (record_us v h))"
        using P Q by (simp add: record_us_eq)
      finally show ?thesis .
    next
      case False
      then show ?thesis using P by (auto simp add: record_us_eq)
    qed
  next
    case False
    then show ?thesis by (auto simp add: record_us_eq)
  qed
  show "min_h (record_us v (record_us w h)) = min_h (record_us w (record_us v h))"
    by (simp add: record_us_eq min.commute min.left_commute)
  show "max_h (record_us v (record_us w h)) = max_h (record_us w (record_us v h))"
    by (simp add: record_us_eq max.commute max.left_commute)
qed (simp_all add: record_us_eq)

lemma fold_record_us_mset:
  assumes "mset vs = mset ws"
  shows "fold record_us vs h = fold record_us ws h"
proof -
  have "fold record_us vs = fold record_us ws"
    by (rule fold_multiset_equiv) (use assms in \<open>auto simp: fun_eq_iff record_us_commute\<close>)
  then show ?thesis by simp
qed

lemma addStatusMap_commute:
  "addStatusMap e (addStatusMap e' m) = addStatusMap e' (addStatusMap e m)"
proof -
  obtain k c where e: "e = (k, c)" by (cases e)
  obtain k' c' where e': "e' = (k', c')" by (cases e')
  show ?thesis
    unfolding e e' by (cases "k = k'") (auto simp: addStatusMap_def fun_upd_twist split: option.splits)
qed

lemma fold_addStatusMap_mset:
  assumes "mset es = mset fs"
  shows "fold addStatusMap es m = fold addStatusMap fs m"
proof -
  have "fold addStatusMap es = fold addStatusMap fs"
    by (rule fold_multiset_equiv) (use assms in \<open>auto simp: fun_eq_iff addStatusMap_commute\<close>)
  then show ?thesis by simp
qed

lemma map_of_addStatusCode: "map_of (addStatusCode e codes) = addStatusMap e (map_of codes)"
  by (cases e) (simp add: addStatusCode_def addStatusMap_def update_conv' Let_def)

lemma map_of_fold_addStatusCode:
  "map_of (fold addStatusCode es codes) = fold addStatusMap es (map_of codes)"
  by (induction es arbitrary: codes) (simp_all add: map_of_addStatusCode)

lemma fold_addSnapshot_counters:
  "successfulRequests (fold addSnapshot snaps a)
     = successfulRequests a + sum_list (map successful snaps)"
  "failedRequests (fold addSnapshot snaps a) = failedRequests a + sum_list (map failed snaps)"
  "totalBytes (fold addSnapshot snaps a) = totalBytes a + sum_list (map bytes snaps)"
  "timeouts_a (fold addSnapshot snaps a)
     = timeouts_a a + sum_list (map (\<lambda>s. timeouts (errors s)) snaps)"
  "connectionErrors_a (fold addSnapshot snaps a)
     = connectionErrors_a a + sum_list (map (\<lambda>s. connectionErrors (errors s)) snaps)"
  by (induction snaps arbitrary: a) (simp_all add: addSnapshot_def)

lemma fold_addSnapshot_histogram:
  "histogram (fold addSnapshot snaps a)
     = fold record_us (concat (map latencies snaps)) (histogram a)"
  by (induction snaps arbitrary: a) (simp_all add: addSnapshot_def)

lemma fold_addSnapshot_statusCodes:
  "map_of (statusCodes (fold addSnapshot snaps a))
     = fold addStatusMap (concat (map (\<lambda>s. byStatusCode (errors s)) snaps))
         (map_of (statusCodes a))"
proof (induction snaps arbitrary: a)
  case Nil
  then show ?case by simp
next
  case (Cons s snaps)
  have "map_of (statusCodes (addSnapshot s a))
      = fold addStatusMap (byStatusCode (errors s)) (map_of (statusCodes a))"
    by (simp add: addSnapshot_def map_of_fold_addStatusCode)
  then show ?case using Cons.IH [of "addSnapshot s a"] by simp
qed

lemma sum_list_mset_cong:
  fixes f :: "'a \<Rightarrow> nat"
  assumes "mset xs = mset ys"
  shows "sum_list (map f xs) = sum_list (map f ys)"
proof -
  have "sum_mset (mset (map f xs)) = sum_mset (mset (map f ys))"
    using assms by (metis mset_map)
  then show ?thesis by (simp only: sum_mset_sum_list)
qed

lemma mset_concat_cong:
  assumes "mset xs = mset ys"
  shows "mset (concat (map g xs)) = mset (concat (map g ys))"
proof -
  have "mset (concat (map g zs)) = sum_mset (image_mset (\<lambda>z. mset (g z)) (mset zs))" for zs
    by (induction zs) simp_all
  then show ?thesis using assms by simp
qed

lemma getMetrics_cong:
  assumes "totalRequests a = totalRequests b" "successfulRequests a = successfulRequests b"
    "failedRequests a = failedRequests b" "totalBytes a = totalBytes b"
    "histogram a = histogram b" "timeouts_a a = timeouts_a b"
    "connectionErrors_a a = connectionErrors_a b"
    "map_of (statusCodes a) = map_of (statusCodes b)"
  shows "getMetrics a = getMetrics b"
  using assms by (simp add: getMetrics_def)

text \<open>
  Claim C4. For every finite multiset of metrics snapshots and every two orders \<open>xs\<close>
  and \<open>ys\<close> of it, feeding an aggregator the snapshots in either order with \<open>addSnapshot\<close>
  gives the same \<open>getMetrics\<close> output: the same totals, the same latency statistics and
  the same error tallies.
\<close>

theorem aggregator_order_independent:
  assumes "mset xs = mset ys"
  shows "getMetrics (fold addSnapshot xs a) = getMetrics (fold addSnapshot ys a)"
proof (rule getMetrics_cong)
  show "totalRequests (fold addSnapshot xs a) = totalRequests (fold addSnapshot ys a)"
    using sum_list_mset_cong [OF assms, of requests] by (simp add: totalRequests_fold)
  show "successfulRequests (fold addSnapshot xs a) = successfulRequests (fold addSnapshot ys a)"
    using sum_list_mset_cong [OF assms, of successful] by (simp add: fold_addSnapshot_counters)
  show "failedRequests (fold addSnapshot xs a) = failedRequests (fold addSnapshot ys a)"
    using sum_list_mset_cong [OF assms, of failed] by (simp add: fold_addSnapshot_counters)
  show "totalBytes (fold addSnapshot xs a) = totalBytes (fold addSnapshot ys a)"
    using sum_list_mset_cong [OF assms, of bytes] by (simp add: fold_addSnapshot_counters)
  show "histogram (fold addSnapshot xs a) = histogram (fold addSnapshot ys a)"
    unfolding fold_addSnapshot_histogram
    by (rule fold_record_us_mset) (rule mset_concat_cong [OF assms])
  show "timeouts_a (fold addSnapshot xs a) = timeouts_a (fold addSnapshot ys a)"
    using sum_list_mset_cong [OF assms, of "\<lambda>s. timeouts (errors s)"]
    by (simp add: fold_addSnapshot_counters)
  show "connectionErrors_a (fold addSnapshot xs a) = connectionErrors_a (fold addSnapshot ys a)"
    using sum_list_mset_cong [OF assms, of "\<lambda>s. connectionErrors (errors s)"]
    by (simp add: fold_addSnapshot_counters)
  show "map_of (statusCodes (fold addSnapshot xs a)) = map_of (statusCodes (fold addSnapshot ys a))"
    unfolding fold_addSnapshot_statusCodes
    by (rule fold_addStatusMap_mset) (rule mset_concat_cong [OF assms])
qed

theorem aggregator_order_independent_witness:
  "mset [\<lparr>requests = 2, successful = 1, failed = 1, bytes = 10, latencies = [1500],
           errors = \<lparr>timeouts = 0, connectionErrors = 0, byStatusCode = [(500, 1)]\<rparr>,
           workerId = 0\<rparr>,
         \<lparr>requests = 4, successful = 0, failed = 4, bytes = 0, latencies = [2500, 700],
           errors = \<lparr>timeouts = 1, connectionErrors = 0, byStatusCode = [(404, 1), (500, 2)]\<rparr>,
           workerId = 1\<rparr>]
   = mset [\<lparr>requests = 4, successful = 0, failed = 4, bytes = 0, latencies = [2500, 700],
           errors = \<lparr>timeouts = 1, connectionErrors = 0, byStatusCode = [(404, 1), (500, 2)]\<rparr>,
           workerId = 1\<rparr>,
         \<lparr>requests = 2, successful = 1, failed = 1, bytes = 10, latencies = [1500],
           errors = \<lparr>timeouts = 0, connectionErrors = 0, byStatusCode = [(500, 1)]\<rparr>,
           workerId = 0\<rparr>]
   \<and> getMetrics (fold addSnapshot
        [\<lparr>requests = 2, successful = 1, failed = 1, bytes = 10, latencies = [1500],
           errors = \<lparr>timeouts = 0, connectionErrors = 0, byStatusCode = [(500, 1)]\<rparr>,
           workerId = 0\<rparr>,
         \<lparr>requests = 4, successful = 0, failed = 4, bytes = 0, latencies = [2500, 700],
           errors = \<lparr>timeouts = 1, connectionErrors = 0, byStatusCode = [(404, 1), (500, 2)]\<rparr>,
           workerId = 1\<rparr>] createAggregator)
     = getMetrics (fold addSnapshot
        [\<lparr>requests = 4, successful = 0, failed = 4, bytes = 0, latencies = [2500, 700],
           errors = \<lparr>timeouts = 1, connectionErrors = 0, byStatusCode = [(404, 1), (500, 2)]\<rparr>,
           workerId = 1\<rparr>,
         \<lparr>requests = 2, successful = 1, failed = 1, bytes = 10, latencies = [1500],
           errors = \<lparr>timeouts = 0, connectionErrors = 0, byStatusCode = [(500, 1)]\<rparr>,
           workerId = 0\<rparr>] createAggregator)"
proof -
  let ?s1 = "\<lparr>requests = 2, successful = 1, failed = 1, bytes = 10, latencies = [1500],
           errors = \<lparr>timeouts = 0, connectionErrors = 0, byStatusCode = [(500, 1)]\<rparr>,
           workerId = 0\<rparr>"
  let ?s2 = "\<lparr>requests = 4, successful = 0, failed = 4, bytes = 0, latencies = [2500, 700],
           errors = \<lparr>timeouts = 1, connectionErrors = 0, byStatusCode = [(404, 1), (500, 2)]\<rparr>,
           workerId = 1\<rparr>"
  have m: "mset [?s1, ?s2] = mset [?s2, ?s1]"
    by (simp add: add_mset_commute)
  show ?thesis
    using m aggregator_order_independent [OF m, of createAggregator] by (intro conjI)
qed

section \<open>Properties of the rate limiter\<close>















section \<open>Properties of the commands\<close>

text \<open>
  Claim C8. For every result and threshold configuration, \<open>checkThresholds\<close> returns
  exit code 1 exactly when the p99 threshold is set and \<open>result.latency.p99\<close> strictly
  exceeds it, or the error-rate threshold is set and \<open>failed / total\<close> strictly exceeds
  it, and exit code 0 otherwise. The p99 check comes first: when it fails, the p99
  message is the one printed, whatever the error rate. The quotient \<open>failed / total\<close> is
  that of JavaScript: for \<open>total = 0\<close> an assembled result has \<open>failed = 0\<close> and the quotient
  is \<open>NaN\<close>, which exceeds nothing; so does a threshold that is \<open>NaN\<close>.
\<close>

theorem checkThresholds_exit_code:
  "(thresholds_c config = None \<longrightarrow> checkThresholds result config = (EXIT_SUCCESS, []))
   \<and> (thresholds_c config = Some t \<longrightarrow>
        fst (checkThresholds result config)
          = (if (\<exists>x. p99_t t = Some (Some x) \<and> x < p99 (latency_r result))
                \<or> (\<exists>e. errorRate_t t = Some (Some e) \<and> 0 < requests_total result
                       \<and> e < real (requests_failed result) / real (requests_total result))
             then EXIT_THRESHOLD_EXCEEDED else EXIT_SUCCESS)
        \<and> snd (checkThresholds result config)
          = (if (\<exists>x. p99_t t = Some (Some x) \<and> x < p99 (latency_r result))
             then [P99Exceeds (p99 (latency_r result)) (the (p99_t t))]
             else if (\<exists>e. errorRate_t t = Some (Some e) \<and> 0 < requests_total result
                       \<and> e < real (requests_failed result) / real (requests_total result))
             then [ErrorRateExceeds
                     (real (requests_failed result) / real (requests_total result))
                     (the (errorRate_t t))]
             else []))
   \<and> EXIT_SUCCESS = 0 \<and> EXIT_THRESHOLD_EXCEEDED = 1"
proof (intro conjI impI)
  assume "thresholds_c config = None"
  then show "checkThresholds result config = (EXIT_SUCCESS, [])"
    by (simp add: checkThresholds_def)
next
  assume t: "thresholds_c config = Some t"
  show "fst (checkThresholds result config)
          = (if (\<exists>x. p99_t t = Some (Some x) \<and> x < p99 (latency_r result))
                \<or> (\<exists>e. errorRate_t t = Some (Some e) \<and> 0 < requests_total result
                       \<and> e < real (requests_failed result) / real (requests_total result))
             then EXIT_THRESHOLD_EXCEEDED else EXIT_SUCCESS)"
    using t
    by (auto simp add: checkThresholds_def js_gt_def Let_def split: option.splits)
  show "snd (checkThresholds result config)
          = (if (\<exists>x. p99_t t = Some (Some x) \<and> x < p99 (latency_r result))
             then [P99Exceeds (p99 (latency_r result)) (the (p99_t t))]
             else if (\<exists>e. errorRate_t t = Some (Some e) \<and> 0 < requests_total result
                       \<and> e < real (requests_failed result) / real (requests_total result))
             then [ErrorRateExceeds
                     (real (requests_failed result) / real (requests_total result))
                     (the (errorRate_t t))]
             else [])"
    using t
    by (auto simp add: checkThresholds_def js_gt_def Let_def split: option.splits)
qed (simp_all add: EXIT_SUCCESS_def EXIT_THRESHOLD_EXCEEDED_def)

theorem checkThresholds_exit_code_witness:
  "thresholds_c sampleConfig
     = Some \<lparr>p99_t = Some (Some 1), p95_t = None, errorRate_t = Some (Some 0), minRps_t = None\<rparr>
   \<and> checkThresholds sampleResult sampleConfig = (1, [P99Exceeds 5 (Some 1)])
   \<and> thresholds_c (sampleConfig\<lparr>thresholds_c := None\<rparr>) = None
   \<and> checkThresholds sampleResult (sampleConfig\<lparr>thresholds_c := None\<rparr>) = (0, [])
   \<and> thresholds_c (sampleConfig\<lparr>thresholds_c :=
        Some \<lparr>p99_t = Some (Some 5), p95_t = None, errorRate_t = Some (Some 0),
              minRps_t = None\<rparr>\<rparr>)
     = Some \<lparr>p99_t = Some (Some 5), p95_t = None, errorRate_t = Some (Some 0),
             minRps_t = None\<rparr>
   \<and> checkThresholds sampleResult (sampleConfig\<lparr>thresholds_c :=
        Some \<lparr>p99_t = Some (Some 5), p95_t = None, errorRate_t = Some (Some 0),
              minRps_t = None\<rparr>\<rparr>) = (1, [ErrorRateExceeds 1 (Some 0)])"
proof -
  let ?t1 = "\<lparr>p99_t = Some (Some 1), p95_t = None, errorRate_t = Some (Some 0), minRps_t = None\<rparr>"
  let ?t2 = "\<lparr>p99_t = Some (Some 5), p95_t = None, errorRate_t = Some (Some 0),
              minRps_t = None\<rparr>"
  let ?c0 = "sampleConfig\<lparr>thresholds_c := None\<rparr>"
  let ?c2 = "sampleConfig\<lparr>thresholds_c := Some ?t2\<rparr>"
  have h1: "thresholds_c sampleConfig = Some ?t1"
    by (simp add: sampleConfig_def)
  have h0: "thresholds_c ?c0 = None" by simp
  have h2: "thresholds_c ?c2 = Some ?t2" by simp
  have r: "p99 (latency_r sampleResult) = 5" "requests_total sampleResult = 10"
    "requests_failed sampleResult = 10"
    by (simp_all add: sampleResult_def)
  have e: "EXIT_SUCCESS = 0" "EXIT_THRESHOLD_EXCEEDED = 1"
    by (simp_all add: EXIT_SUCCESS_def EXIT_THRESHOLD_EXCEEDED_def)
  have "fst (checkThresholds sampleResult sampleConfig) = 1
      \<and> snd (checkThresholds sampleResult sampleConfig) = [P99Exceeds 5 (Some 1)]"
    using checkThresholds_exit_code [of sampleConfig sampleResult ?t1] h1 r by simp
  then have c1: "checkThresholds sampleResult sampleConfig = (1, [P99Exceeds 5 (Some 1)])"
    by (simp add: prod_eq_iff)
  have c0: "checkThresholds sampleResult ?c0 = (0, [])"
    using checkThresholds_exit_code [of ?c0 sampleResult ?t1] h0 e by simp
  have "fst (checkThresholds sampleResult ?c2) = 1
      \<and> snd (checkThresholds sampleResult ?c2) = [ErrorRateExceeds 1 (Some 0)]"
    using checkThresholds_exit_code [of ?c2 sampleResult ?t2] h2 r by simp
  then have c2: "checkThresholds sampleResult ?c2 = (1, [ErrorRateExceeds 1 (Some 0)])"
    by (simp add: prod_eq_iff)
  show ?thesis
    by (intro conjI) (fact h1 c1 h0 c0 h2 c2)+
qed

lemma parseFlags_step_output_unrecognized:
  assumes "v \<noteq> ''console''" "v \<noteq> ''json''" "v \<noteq> ''html''" "v \<noteq> ''csv''"
  shows "parseFlags_step pInt pFloat ''--output'' (v # rest) flags = (flags, True)"
  using assms by (simp add: parseFlags_step_def nextArg_def Let_def)

lemma parseFlags_loop_output_unrecognized:
  assumes "v \<noteq> ''console''" "v \<noteq> ''json''" "v \<noteq> ''html''" "v \<noteq> ''csv''"
  shows "parseFlags_loop pInt pFloat (''--output'' # v # rest) flags
       = parseFlags_loop pInt pFloat rest flags"
  using parseFlags_step_output_unrecognized [OF assms, of pInt pFloat rest flags]
  by (simp del: parseFlags_loop.simps add: parseFlags_loop.simps(2) [of _ _ "''--output''"])

lemma getReporter_default:
  assumes "f \<noteq> ''json''" "f \<noteq> ''html''" "f \<noteq> ''csv''"
  shows "getReporter f = ConsoleReporter"
  using assms by (simp add: getReporter_def)

lemma main_dispatch_error:
  "main_dispatch fl = Exit EXIT_ERROR \<longleftrightarrow> \<not> help_f fl \<and> \<not> version_f fl \<and> urls fl = []"
  by (auto simp add: main_dispatch_def flagsToConfig_def EXIT_ERROR_def EXIT_SUCCESS_def
        split: list.splits)

text \<open>
  Claim C9, as the code has it. For every string \<open>v\<close> passed to \<open>--output\<close> other than
  exactly \<open>console\<close>, \<open>json\<close>, \<open>html\<close> or \<open>csv\<close>, flag parsing reads \<open>v\<close> and silently leaves all
  flags as they were: the output format stays the one in force, which is the default
  \<open>console\<close> unless an earlier \<open>--output\<close> on the command line set a recognized format, and
  the parse is that of the command line without the two arguments. Reporter selection
  follows that format, and maps every string other than \<open>json\<close>, \<open>html\<close> and \<open>csv\<close> to the
  console reporter. No configuration error comes from it: \<open>main\<close> decides as it does
  without the two arguments, and exits with code 2 before running only when no URL
  was given.
\<close>

theorem unrecognized_output_keeps_format:
  "(v \<noteq> ''console'' \<and> v \<noteq> ''json'' \<and> v \<noteq> ''html'' \<and> v \<noteq> ''csv'' \<longrightarrow>
      parseFlags_step pInt pFloat ''--output'' (v # rest) flags = (flags, True)
      \<and> parseFlags_loop pInt pFloat (''--output'' # v # rest) flags
          = parseFlags_loop pInt pFloat rest flags
      \<and> parseFlags pInt pFloat (''--output'' # v # rest) = parseFlags pInt pFloat rest
      \<and> main_dispatch (parseFlags pInt pFloat (''--output'' # v # rest))
          = main_dispatch (parseFlags pInt pFloat rest)
      \<and> output_f (parseFlags pInt pFloat [''--output'', v]) = ''console''
      \<and> getReporter (output_f (parseFlags pInt pFloat [''--output'', v])) = ConsoleReporter
      \<and> getReporter v = ConsoleReporter)
   \<and> (f \<noteq> ''json'' \<and> f \<noteq> ''html'' \<and> f \<noteq> ''csv'' \<longrightarrow> getReporter f = ConsoleReporter)
   \<and> (main_dispatch fl = Exit EXIT_ERROR \<longleftrightarrow> \<not> help_f fl \<and> \<not> version_f fl \<and> urls fl = [])"
proof (intro conjI impI)
  assume a: "v \<noteq> ''console'' \<and> v \<noteq> ''json'' \<and> v \<noteq> ''html'' \<and> v \<noteq> ''csv''"
  show "parseFlags_step pInt pFloat ''--output'' (v # rest) flags = (flags, True)"
    using a by (simp add: parseFlags_step_output_unrecognized)
  have l: "parseFlags_loop pInt pFloat (''--output'' # v # rest') flags'
          = parseFlags_loop pInt pFloat rest' flags'" for rest' flags'
    using a by (intro parseFlags_loop_output_unrecognized) simp_all
  have p: "parseFlags pInt pFloat (''--output'' # v # rest') = parseFlags pInt pFloat rest'"
    for rest'
    unfolding parseFlags_def by (rule l)
  show "parseFlags_loop pInt pFloat (''--output'' # v # rest) flags
          = parseFlags_loop pInt pFloat rest flags"
    by (rule l)
  show "parseFlags pInt pFloat (''--output'' # v # rest) = parseFlags pInt pFloat rest"
    by (rule p)
  show "main_dispatch (parseFlags pInt pFloat (''--output'' # v # rest))
          = main_dispatch (parseFlags pInt pFloat rest)"
    by (simp only: p)
  have d: "parseFlags pInt pFloat [''--output'', v] = defaultFlags"
    unfolding p by (simp add: parseFlags_def)
  show "output_f (parseFlags pInt pFloat [''--output'', v]) = ''console''"
    unfolding d by (simp add: defaultFlags_def)
  show "getReporter (output_f (parseFlags pInt pFloat [''--output'', v])) = ConsoleReporter"
    unfolding d by (simp add: defaultFlags_def getReporter_def)
  show "getReporter v = ConsoleReporter"
    using a by (simp add: getReporter_default)
next
  assume "f \<noteq> ''json'' \<and> f \<noteq> ''html'' \<and> f \<noteq> ''csv''"
  then show "getReporter f = ConsoleReporter"
    by (simp add: getReporter_default)
next
  show "main_dispatch fl = Exit EXIT_ERROR \<longleftrightarrow> \<not> help_f fl \<and> \<not> version_f fl \<and> urls fl = []"
    by (rule main_dispatch_error)
qed

theorem unrecognized_output_keeps_format_witness:
  "''xml'' \<noteq> ''console'' \<and> ''xml'' \<noteq> ''json'' \<and> ''xml'' \<noteq> ''html'' \<and> ''xml'' \<noteq> ''csv''
   \<and> parseFlags (\<lambda>s. None) (\<lambda>s. None) [''--output'', ''xml'', ''http://a'']
       = parseFlags (\<lambda>s. None) (\<lambda>s. None) [''http://a'']
   \<and> output_f (parseFlags (\<lambda>s. None) (\<lambda>s. None) [''--output'', ''xml'', ''http://a''])
       = ''console''
   \<and> urls (parseFlags (\<lambda>s. None) (\<lambda>s. None) [''--output'', ''xml'', ''http://a''])
       = [''http://a'']
   \<and> getReporter ''xml'' = ConsoleReporter
   \<and> main_dispatch (parseFlags (\<lambda>s. None) (\<lambda>s. None) [''--output'', ''xml'', ''http://a''])
       \<noteq> Exit EXIT_ERROR"
proof -
  let ?p = "parseFlags (\<lambda>s. None) (\<lambda>s. None)"
  have ne: "''xml'' \<noteq> ''console''" "''xml'' \<noteq> ''json''" "''xml'' \<noteq> ''html''" "''xml'' \<noteq> ''csv''"
    by simp_all
  note th = unrecognized_output_keeps_format
      [of "''xml''" "\<lambda>s. None" "\<lambda>s. None" "[''http://a'']" defaultFlags "''xml''"
          "?p [''http://a'']"]
  have e: "?p [''--output'', ''xml'', ''http://a''] = ?p [''http://a'']"
    using th ne by blast
  have base: "?p [''http://a''] = defaultFlags\<lparr>urls := [''http://a'']\<rparr>"
    by (simp add: parseFlags_def parseFlags_step_def defaultFlags_def)
  have o: "output_f (?p [''--output'', ''xml'', ''http://a'']) = ''console''"
    unfolding e base by (simp add: defaultFlags_def)
  have u: "urls (?p [''--output'', ''xml'', ''http://a'']) = [''http://a'']"
    unfolding e base by simp
  have g: "getReporter ''xml'' = ConsoleReporter"
    using th ne by blast
  have "main_dispatch (?p [''http://a'']) = Exit EXIT_ERROR
      \<longleftrightarrow> \<not> help_f (?p [''http://a'']) \<and> \<not> version_f (?p [''http://a''])
          \<and> urls (?p [''http://a'']) = []"
    using th by blast
  then have m: "main_dispatch (?p [''--output'', ''xml'', ''http://a'']) \<noteq> Exit EXIT_ERROR"
    unfolding e by (simp add: base)
  show ?thesis
    by (intro conjI) (fact ne e o u g m)+
qed

theorem output_after_recognized_counterexample:
  "''xml'' \<noteq> ''console'' \<and> ''xml'' \<noteq> ''json'' \<and> ''xml'' \<noteq> ''html'' \<and> ''xml'' \<noteq> ''csv''
   \<and> output_f (parseFlags (\<lambda>s. None) (\<lambda>s. None)
        [''http://a'', ''--output'', ''json'', ''--output'', ''xml'']) = ''json''
   \<and> output_f (parseFlags (\<lambda>s. None) (\<lambda>s. None)
        [''http://a'', ''--output'', ''json'', ''--output'', ''xml'']) \<noteq> ''console''
   \<and> getReporter (output_f (parseFlags (\<lambda>s. None) (\<lambda>s. None)
        [''http://a'', ''--output'', ''json'', ''--output'', ''xml''])) = JsonReporter
   \<and> JsonReporter \<noteq> ConsoleReporter"
  by (simp add: parseFlags_def parseFlags_step_def defaultFlags_def nextArg_def getReporter_def)

lemma compare_step_cases:
  "compare_step probe bench config url acc =
     (if produces_result probe bench config url
      then (fst acc @ [\<lparr>url_cr = url,
              rps_cr = throughput_rps (projr (bench (config\<lparr>url_c := url\<rparr>))),
              p50_cr = p50 (latency_r (projr (bench (config\<lparr>url_c := url\<rparr>)))),
              p99_cr = p99 (latency_r (projr (bench (config\<lparr>url_c := url\<rparr>)))),
              errorRate_cr =
                (if requests_total (projr (bench (config\<lparr>url_c := url\<rparr>))) > 0
                 then (real (requests_failed (projr (bench (config\<lparr>url_c := url\<rparr>))))
                        / real (requests_total (projr (bench (config\<lparr>url_c := url\<rparr>))))) * 100
                 else 0)\<rparr>], snd acc)
      else (fst acc,
            snd acc @ [case probe url (configTimeout config) of
                         Unreachable err \<Rightarrow> Skipping url err
                       | Reachable c \<Rightarrow> FailedUrl url (projl (bench (config\<lparr>url_c := url\<rparr>)))]))"
  by (simp add: compare_step_def produces_result_def Let_def
        split: reachability.splits sum.splits)

lemma compare_fold:
  "map url_cr (fst (fold (compare_step probe bench config) targets acc))
     = map url_cr (fst acc) @ filter (produces_result probe bench config) targets
   \<and> length (filter is_warning (snd (fold (compare_step probe bench config) targets acc)))
     = length (filter is_warning (snd acc))
       + length (filter (\<lambda>u. \<not> produces_result probe bench config u) targets)
   \<and> (list_all (\<lambda>l. \<not> is_threshold_line l) (snd acc) \<longrightarrow>
        list_all (\<lambda>l. \<not> is_threshold_line l)
          (snd (fold (compare_step probe bench config) targets acc)))"
proof (induction targets arbitrary: acc)
  case Nil
  then show ?case by simp
next
  case (Cons u targets)
  show ?case
  proof (cases "produces_result probe bench config u")
    case True
    then show ?thesis
      using Cons [of "compare_step probe bench config u acc"]
      by (simp add: compare_step_cases)
  next
    case False
    then show ?thesis
      using Cons [of "compare_step probe bench config u acc"]
      by (simp add: compare_step_cases is_warning_def is_threshold_line_def
            split: reachability.splits)
  qed
qed

text \<open>
  Claim C10, as the code has it. In compare mode the thresholds are never evaluated:
  \<open>compareCommand\<close> never returns exit code 1 and prints no threshold message. It goes
  through all targets, skips each unreachable or failing one with one warning, and
  keeps the results of the others in order. It returns exit code 2 when no target
  produced a result, and exit code 0 when at least one target passes the reachability
  check and benchmarks without throwing and the report file, if one is asked for, is
  written. The write of the report file is not guarded: when it throws after some
  target produced a result, the error leaves \<open>compareCommand\<close>, which returns no exit
  code, and \<open>main\<close> exits with code 2.
\<close>

theorem compare_ignores_thresholds:
  "(compareCommand probe bench writeFile targets config = Inl message
      \<longleftrightarrow> (\<exists>u\<in>set targets. produces_result probe bench config u)
          \<and> savedReport writeFile config = Inl message)
   \<and> (compareCommand probe bench writeFile targets config = Inr r \<longrightarrow>
        fst r = (if \<exists>u\<in>set targets. produces_result probe bench config u
                 then EXIT_SUCCESS else EXIT_ERROR)
        \<and> fst r \<noteq> EXIT_THRESHOLD_EXCEEDED
        \<and> map url_cr (snd (snd r)) = filter (produces_result probe bench config) targets
        \<and> length (filter is_warning (fst (snd r)))
            = length (filter (\<lambda>u. \<not> produces_result probe bench config u) targets)
        \<and> list_all (\<lambda>l. \<not> is_threshold_line l) (fst (snd r)))
   \<and> (savedReport writeFile config = Inl message
        \<longleftrightarrow> (\<exists>f. outputFile_c config = Some f \<and> writeFile f = Some message))
   \<and> (main_dispatch flags = Compare targets config \<longrightarrow>
        main_exit probe bench writeFile flags
          = (if (\<exists>u\<in>set targets. produces_result probe bench config u)
                \<and> (\<forall>f. outputFile_c config = Some f \<longrightarrow> writeFile f = None)
             then EXIT_SUCCESS else EXIT_ERROR))
   \<and> EXIT_SUCCESS = 0 \<and> EXIT_THRESHOLD_EXCEEDED = 1 \<and> EXIT_ERROR = 2"
proof -
  let ?acc = "fold (compare_step probe bench config) targets ([], [])"
  let ?ok = "produces_result probe bench config"
  let ?some = "\<exists>u\<in>set targets. ?ok u"
  have f: "map url_cr (fst ?acc) = filter ?ok targets"
    "length (filter is_warning (snd ?acc)) = length (filter (\<lambda>u. \<not> ?ok u) targets)"
    "list_all (\<lambda>l. \<not> is_threshold_line l) (snd ?acc)"
    using compare_fold [of probe bench config targets "([], [])"] by simp_all
  have empty: "fst ?acc = [] \<longleftrightarrow> \<not> ?some"
  proof -
    have "fst ?acc = [] \<longleftrightarrow> map url_cr (fst ?acc) = []" by simp
    also have "\<dots> \<longleftrightarrow> filter ?ok targets = []" by (simp only: f(1))
    also have "\<dots> \<longleftrightarrow> \<not> ?some" by (simp add: filter_empty_conv)
    finally show ?thesis .
  qed
  have saved: "savedReport writeFile config = Inl m
        \<longleftrightarrow> (\<exists>f. outputFile_c config = Some f \<and> writeFile f = Some m)" for m
    by (auto simp add: savedReport_def split: option.splits)
  have lines: "savedReport writeFile config = Inr ls \<Longrightarrow>
      filter is_warning ls = [] \<and> list_all (\<lambda>l. \<not> is_threshold_line l) ls" for ls
    by (auto simp add: savedReport_def is_warning_def is_threshold_line_def
          split: option.splits)
  have throws: "compareCommand probe bench writeFile targets config = Inl message
      \<longleftrightarrow> ?some \<and> savedReport writeFile config = Inl message"
    using empty by (auto simp add: compareCommand_def Let_def split: sum.splits)
  have returns: "fst r = (if ?some then EXIT_SUCCESS else EXIT_ERROR)
        \<and> fst r \<noteq> EXIT_THRESHOLD_EXCEEDED
        \<and> map url_cr (snd (snd r)) = filter ?ok targets
        \<and> length (filter is_warning (fst (snd r))) = length (filter (\<lambda>u. \<not> ?ok u) targets)
        \<and> list_all (\<lambda>l. \<not> is_threshold_line l) (fst (snd r))"
    if r: "compareCommand probe bench writeFile targets config = Inr r"
  proof (cases "fst ?acc = []")
    case True
    then have "r = (EXIT_ERROR, snd ?acc @ [NoSuccessfulBenchmarks], [])"
      using r by (simp add: compareCommand_def Let_def)
    moreover have "filter ?ok targets = []"
      using True f(1) by simp
    ultimately show ?thesis
      using True empty f(2,3)
      by (simp add: is_warning_def is_threshold_line_def EXIT_ERROR_def
            EXIT_THRESHOLD_EXCEEDED_def)
  next
    case False
    then obtain ls where ls: "savedReport writeFile config = Inr ls"
      and "r = (EXIT_SUCCESS, snd ?acc @ ls, fst ?acc)"
      using r by (auto simp add: compareCommand_def Let_def split: sum.splits)
    then show ?thesis
      using False empty f lines [OF ls]
      by (simp add: EXIT_SUCCESS_def EXIT_THRESHOLD_EXCEEDED_def)
  qed
  have exit: "main_exit probe bench writeFile flags
          = (if ?some \<and> (\<forall>f. outputFile_c config = Some f \<longrightarrow> writeFile f = None)
             then EXIT_SUCCESS else EXIT_ERROR)"
    if d: "main_dispatch flags = Compare targets config"
  proof (cases "compareCommand probe bench writeFile targets config")
    case (Inl m)
    then have "?some" and "\<exists>f. outputFile_c config = Some f \<and> writeFile f = Some m"
      using empty saved [of m]
      by (auto simp add: compareCommand_def Let_def split: sum.splits if_splits)
    then have "\<not> (\<forall>f. outputFile_c config = Some f \<longrightarrow> writeFile f = None)"
      by auto
    then show ?thesis
      using d Inl by (auto simp add: main_exit_def)
  next
    case (Inr r')
    have code: "fst r' = (if ?some then EXIT_SUCCESS else EXIT_ERROR)"
      using empty Inr by (auto simp add: compareCommand_def Let_def split: sum.splits if_splits)
    have written: "\<forall>f. outputFile_c config = Some f \<longrightarrow> writeFile f = None" if "?some"
    proof (intro allI impI)
      fix f
      assume o: "outputFile_c config = Some f"
      show "writeFile f = None"
      proof (rule ccontr)
        assume "writeFile f \<noteq> None"
        then obtain m where "writeFile f = Some m" by auto
        then have "savedReport writeFile config = Inl m"
          using o by (simp add: savedReport_def)
        then have "compareCommand probe bench writeFile targets config = Inl m"
          using that empty by (simp add: compareCommand_def Let_def)
        then show False using Inr by simp
      qed
    qed
    show ?thesis
    proof (cases ?some)
      case True
      then show ?thesis
        using d Inr code written [OF True] by (simp add: main_exit_def)
    next
      case False
      then show ?thesis
        using d Inr code by (simp add: main_exit_def)
    qed
  qed
  show ?thesis
    using throws returns saved [of message] exit
    by (simp add: EXIT_SUCCESS_def EXIT_ERROR_def EXIT_THRESHOLD_EXCEEDED_def)
qed

theorem compare_ignores_thresholds_witness:
  "produces_result sampleProbe sampleBench sampleConfig ''http://b''
   \<and> \<not> produces_result sampleProbe sampleBench sampleConfig ''http://a''
   \<and> fst (checkThresholds sampleResult (sampleConfig\<lparr>url_c := ''http://b''\<rparr>)) = 1
   \<and> savedReport writableDisk (sampleConfig\<lparr>outputFile_c := Some ''out.json''\<rparr>)
       = Inr [ReportSaved ''out.json'']
   \<and> compareCommand sampleProbe sampleBench writableDisk [''http://a'', ''http://b'']
        (sampleConfig\<lparr>outputFile_c := Some ''out.json''\<rparr>)
       = Inr (0, [Skipping ''http://a'' ''refused'', ReportSaved ''out.json''],
              [\<lparr>url_cr = ''http://b'', rps_cr = 5, p50_cr = 3, p99_cr = 5,
                errorRate_cr = 100\<rparr>])
   \<and> compareCommand sampleProbe sampleBench writableDisk [''http://a'']
        (sampleConfig\<lparr>outputFile_c := Some ''out.json''\<rparr>)
       = Inr (2, [Skipping ''http://a'' ''refused'', NoSuccessfulBenchmarks], [])
   \<and> main_dispatch (parseFlags (\<lambda>s. None) (\<lambda>s. None)
        [''--compare'', ''http://a'', ''http://b'', ''-o'', ''out.json''])
       = Compare [''http://a'', ''http://b'']
           (the (flagsToConfig (parseFlags (\<lambda>s. None) (\<lambda>s. None)
              [''--compare'', ''http://a'', ''http://b'', ''-o'', ''out.json''])))
   \<and> main_exit sampleProbe sampleBench writableDisk (parseFlags (\<lambda>s. None) (\<lambda>s. None)
        [''--compare'', ''http://a'', ''http://b'', ''-o'', ''out.json'']) = 0"
proof -
  let ?c = "sampleConfig\<lparr>outputFile_c := Some ''out.json''\<rparr>"
  let ?fl = "parseFlags (\<lambda>s. None) (\<lambda>s. None)
        [''--compare'', ''http://a'', ''http://b'', ''-o'', ''out.json'']"
  have okb: "produces_result sampleProbe sampleBench c ''http://b''" for c
    by (simp add: produces_result_def sampleProbe_def sampleBench_def)
  have oka: "\<not> produces_result sampleProbe sampleBench c ''http://a''" for c
    by (simp add: produces_result_def sampleProbe_def)
  have thr: "fst (checkThresholds sampleResult (sampleConfig\<lparr>url_c := ''http://b''\<rparr>)) = 1"
    by (simp add: checkThresholds_def sampleConfig_def sampleResult_def js_gt_def
          EXIT_THRESHOLD_EXCEEDED_def)
  have sv: "savedReport writableDisk ?c = Inr [ReportSaved ''out.json'']"
    by (simp add: savedReport_def writableDisk_def)
  have two: "compareCommand sampleProbe sampleBench writableDisk [''http://a'', ''http://b''] ?c
       = Inr (0, [Skipping ''http://a'' ''refused'', ReportSaved ''out.json''],
              [\<lparr>url_cr = ''http://b'', rps_cr = 5, p50_cr = 3, p99_cr = 5,
                errorRate_cr = 100\<rparr>])"
    by (simp add: compareCommand_def compare_step_def savedReport_def writableDisk_def
          sampleProbe_def sampleBench_def sampleResult_def Let_def EXIT_SUCCESS_def)
  have one: "compareCommand sampleProbe sampleBench writableDisk [''http://a''] ?c
       = Inr (2, [Skipping ''http://a'' ''refused'', NoSuccessfulBenchmarks], [])"
    by (simp add: compareCommand_def compare_step_def sampleProbe_def Let_def EXIT_ERROR_def)
  have flags: "compare_f ?fl" "urls ?fl = [''http://a'', ''http://b'']"
    "outputFile ?fl = Some ''out.json''" "\<not> help_f ?fl" "\<not> version_f ?fl"
    by (simp_all add: parseFlags_def parseFlags_step_def defaultFlags_def nextArg_def)
  obtain cfg where cfg: "flagsToConfig ?fl = Some cfg" "outputFile_c cfg = Some ''out.json''"
    using flags by (simp add: flagsToConfig_def)
  have disp: "main_dispatch ?fl = Compare [''http://a'', ''http://b''] cfg"
    using flags cfg by (simp add: main_dispatch_def)
  have w: "\<forall>f. outputFile_c cfg = Some f \<longrightarrow> writableDisk f = None"
    by (simp add: writableDisk_def)
  have some: "\<exists>u\<in>set [''http://a'', ''http://b'']. produces_result sampleProbe sampleBench cfg u"
    using okb by simp
  note th = compare_ignores_thresholds
      [of sampleProbe sampleBench writableDisk "[''http://a'', ''http://b'']" cfg _ _ ?fl]
  have "main_exit sampleProbe sampleBench writableDisk ?fl
          = (if (\<exists>u\<in>set [''http://a'', ''http://b''].
                   produces_result sampleProbe sampleBench cfg u)
                \<and> (\<forall>f. outputFile_c cfg = Some f \<longrightarrow> writableDisk f = None)
             then EXIT_SUCCESS else EXIT_ERROR)"
    using th disp by blast
  then have ex: "main_exit sampleProbe sampleBench writableDisk ?fl = 0"
    using some w by (simp add: EXIT_SUCCESS_def)
  have d2: "main_dispatch ?fl = Compare [''http://a'', ''http://b''] (the (flagsToConfig ?fl))"
    using disp cfg by simp
  show ?thesis
    by (intro conjI) (fact okb oka thr sv two one d2 ex)+
qed

theorem compare_write_failure_counterexample:
  "produces_result sampleProbe sampleBench
      (sampleConfig\<lparr>outputFile_c := Some ''out.json''\<rparr>) ''http://b''
   \<and> compareCommand sampleProbe sampleBench readOnlyDisk [''http://a'', ''http://b'']
        (sampleConfig\<lparr>outputFile_c := Some ''out.json''\<rparr>)
       = Inl ''EACCES: permission denied''
   \<and> urls (parseFlags (\<lambda>s. None) (\<lambda>s. None)
        [''--compare'', ''http://a'', ''http://b'', ''-o'', ''out.json''])
       = [''http://a'', ''http://b'']
   \<and> main_exit sampleProbe sampleBench readOnlyDisk (parseFlags (\<lambda>s. None) (\<lambda>s. None)
        [''--compare'', ''http://a'', ''http://b'', ''-o'', ''out.json'']) = 2
   \<and> main_exit sampleProbe sampleBench writableDisk (parseFlags (\<lambda>s. None) (\<lambda>s. None)
        [''--compare'', ''http://a'', ''http://b'', ''-o'', ''out.json'']) = 0"
proof -
  let ?fl = "parseFlags (\<lambda>s. None) (\<lambda>s. None)
        [''--compare'', ''http://a'', ''http://b'', ''-o'', ''out.json'']"
  have okb: "produces_result sampleProbe sampleBench
      (sampleConfig\<lparr>outputFile_c := Some ''out.json''\<rparr>) ''http://b''"
    by (simp add: produces_result_def sampleProbe_def sampleBench_def)
  have thrown: "compareCommand sampleProbe sampleBench readOnlyDisk [''http://a'', ''http://b'']
        (sampleConfig\<lparr>outputFile_c := Some ''out.json''\<rparr>)
       = Inl ''EACCES: permission denied''"
    by (simp add: compareCommand_def compare_step_def savedReport_def readOnlyDisk_def
          sampleProbe_def sampleBench_def sampleResult_def Let_def)
  have flags: "compare_f ?fl" "urls ?fl = [''http://a'', ''http://b'']"
    "outputFile ?fl = Some ''out.json''" "\<not> help_f ?fl" "\<not> version_f ?fl"
    by (simp_all add: parseFlags_def parseFlags_step_def defaultFlags_def nextArg_def)
  obtain cfg where cfg: "flagsToConfig ?fl = Some cfg" "outputFile_c cfg = Some ''out.json''"
    using flags by (simp add: flagsToConfig_def)
  have disp: "main_dispatch ?fl = Compare [''http://a'', ''http://b''] cfg"
    using flags cfg by (simp add: main_dispatch_def)
  have c1: "compareCommand sampleProbe sampleBench readOnlyDisk [''http://a'', ''http://b''] cfg
       = Inl ''EACCES: permission denied''"
    using cfg(2)
    by (simp add: compareCommand_def compare_step_def savedReport_def readOnlyDisk_def
          sampleProbe_def sampleBench_def sampleResult_def Let_def)
  have c2: "compareCommand sampleProbe sampleBench writableDisk [''http://a'', ''http://b''] cfg
       = Inr (0, [Skipping ''http://a'' ''refused'', ReportSaved ''out.json''],
              [\<lparr>url_cr = ''http://b'', rps_cr = 5, p50_cr = 3, p99_cr = 5,
                errorRate_cr = 100\<rparr>])"
    using cfg(2)
    by (simp add: compareCommand_def compare_step_def savedReport_def writableDisk_def
          sampleProbe_def sampleBench_def sampleResult_def Let_def EXIT_SUCCESS_def)
  have e2: "main_exit sampleProbe sampleBench readOnlyDisk ?fl = 2"
    using disp c1 by (simp add: main_exit_def EXIT_ERROR_def)
  have e0: "main_exit sampleProbe sampleBench writableDisk ?fl = 0"
    using disp c2 by (simp add: main_exit_def)
  show ?thesis
    by (intro conjI) (fact okb thrown flags(2) e2 e0)+
qed

end
